theory Spec2Isabelle
  imports Main "HOL-Library.Word"
begin

unbundle bit_operations_syntax

section \<open>Data model of keymaster_enforcement.cpp\<close>

type_synonym km_id_t = "64 word"
type_synonym keymaster_operation_handle_t = "64 word"

text \<open>The error codes that \<open>AuthorizeOperation\<close> returns.\<close>

datatype keymaster_error_t =
    KM_ERROR_OK
  | KM_ERROR_INCOMPATIBLE_PURPOSE
  | KM_ERROR_UNSUPPORTED_PURPOSE
  | KM_ERROR_KEY_NOT_YET_VALID
  | KM_ERROR_KEY_EXPIRED
  | KM_ERROR_KEY_RATE_LIMIT_EXCEEDED
  | KM_ERROR_KEY_MAX_OPS_EXCEEDED
  | KM_ERROR_INVALID_KEY_BLOB
  | KM_ERROR_KEY_USER_NOT_AUTHENTICATED
  | KM_ERROR_CALLER_NONCE_PROHIBITED
  | KM_ERROR_TOO_MANY_OPERATIONS

subsection \<open>The two bounded usage tables\<close>

text \<open>
  \<open>AccessTime\<close> and \<open>AccessCount\<close> are the entry structs of the two lists; both start
  with the key id. \<open>max_size_\<close> is the capacity each table is constructed with.

  The structs are declared in keymaster_enforcement.h, which is not among the sources.
  The source assigns and compares \<open>access_time\<close> and \<open>timeout\<close> as \<open>uint32_t\<close>. Of
  \<open>access_count\<close> it shows only that it is an integer which is incremented, compared
  with \<open>max_value\<close> of its own type and converted to \<open>uint32_t\<close> when read. Its type is
  therefore a parameter, \<open>'c\<close>, of the count table; the operations take it to be an
  unsigned integer type of any width \<open>'w\<close>, a \<open>'w word\<close>.
\<close>

record entry =
  keyid :: km_id_t

record AccessTime = entry +
  access_time :: "32 word"
  timeout :: "32 word"

record 'c AccessCount = entry +
  access_count :: 'c

record bounded_map =
  max_size :: nat

record AccessTimeMap = bounded_map +
  last_access_list :: "AccessTime list"

record 'c AccessCountMap = bounded_map +
  access_count_list :: "'c AccessCount list"

definition UINT32_MAX :: "32 word" where
  "UINT32_MAX = 0xFFFFFFFF"

text \<open>\<open>AccessTimeMap::LastKeyAccessTime\<close>: the first entry of the key, if any.\<close>

fun LastKeyAccessTime_loop :: "AccessTime list \<Rightarrow> km_id_t \<Rightarrow> 32 word option" where
  "LastKeyAccessTime_loop [] k = None"
| "LastKeyAccessTime_loop (e # es) k =
     (if keyid e = k then Some (access_time e) else LastKeyAccessTime_loop es k)"

definition LastKeyAccessTime :: "AccessTimeMap \<Rightarrow> km_id_t \<Rightarrow> 32 word option" where
  "LastKeyAccessTime m k = LastKeyAccessTime_loop (last_access_list m) k"

text \<open>
  The scan of \<open>AccessTimeMap::UpdateKeyAccessTime\<close>. It stops at the first entry of the
  key, whose time it refreshes (result flag \<open>True\<close>); an entry of another key is erased
  when \<open>current_time - access_time >= timeout\<close> (unsigned 32-bit subtraction) and kept
  otherwise. The \<open>assert(current_time >= iter->access_time)\<close> that precedes the test
  aborts the call: the result is \<open>None\<close>.
\<close>

fun UpdateKeyAccessTime_loop ::
  "km_id_t \<Rightarrow> 32 word \<Rightarrow> AccessTime list \<Rightarrow> (bool \<times> AccessTime list) option" where
  "UpdateKeyAccessTime_loop k current_time [] = Some (False, [])"
| "UpdateKeyAccessTime_loop k current_time (e # es) =
     (if keyid e = k then Some (True, e\<lparr>access_time := current_time\<rparr> # es)
      else if \<not> access_time e \<le> current_time then None
      else if timeout e \<le> current_time - access_time e
        then UpdateKeyAccessTime_loop k current_time es
      else (case UpdateKeyAccessTime_loop k current_time es of
              None \<Rightarrow> None
            | Some (found, es') \<Rightarrow> Some (found, e # es')))"

definition UpdateKeyAccessTime ::
  "AccessTimeMap \<Rightarrow> km_id_t \<Rightarrow> 32 word \<Rightarrow> 32 word \<Rightarrow> (bool \<times> AccessTimeMap) option" where
  "UpdateKeyAccessTime m k current_time tmo =
     (case UpdateKeyAccessTime_loop k current_time (last_access_list m) of
        None \<Rightarrow> None
      | Some (found, es) \<Rightarrow>
          if found then Some (True, m\<lparr>last_access_list := es\<rparr>)
          else if max_size m \<le> length es then Some (False, m\<lparr>last_access_list := es\<rparr>)
          else Some (True, m\<lparr>last_access_list :=
                 \<lparr>keyid = k, access_time = current_time, timeout = tmo\<rparr> # es\<rparr>))"

text \<open>
  \<open>AccessCountMap::KeyAccessCount\<close>: the counter of the first entry of the key. The
  assignment \<open>*count = entry.access_count\<close> to a \<open>uint32_t\<close> converts the field: it keeps
  the low 32 bits of a wider field and extends a narrower one with zeros.
\<close>

fun KeyAccessCount_loop ::
  "('w::len) word AccessCount list \<Rightarrow> km_id_t \<Rightarrow> 32 word option" where
  "KeyAccessCount_loop [] k = None"
| "KeyAccessCount_loop (e # es) k =
     (if keyid e = k then Some (ucast (access_count e)) else KeyAccessCount_loop es k)"

definition KeyAccessCount ::
  "('w::len) word AccessCountMap \<Rightarrow> km_id_t \<Rightarrow> 32 word option" where
  "KeyAccessCount m k = KeyAccessCount_loop (access_count_list m) k"

text \<open>
  The counter field of the first entry of the key as the table stores it, before the
  conversion of \<open>KeyAccessCount\<close>: what the claims on the counter speak of.
\<close>

fun stored_count_loop :: "'c AccessCount list \<Rightarrow> km_id_t \<Rightarrow> 'c option" where
  "stored_count_loop [] k = None"
| "stored_count_loop (e # es) k =
     (if keyid e = k then Some (access_count e) else stored_count_loop es k)"

definition stored_count :: "'c AccessCountMap \<Rightarrow> km_id_t \<Rightarrow> 'c option" where
  "stored_count m k = stored_count_loop (access_count_list m) k"

text \<open>\<open>max_value\<close>: the largest value of the type of its argument.\<close>

definition max_value :: "('w::len) word \<Rightarrow> 'w word" where
  "max_value x = - 1"

text \<open>
  \<open>AccessCountMap::IncrementKeyAccessCount\<close>. The loop returns the list with the first
  entry of the key incremented (unless its counter is \<open>max_value\<close> of the field's type),
  or \<open>None\<close> when the key has no entry.
\<close>

fun IncrementKeyAccessCount_loop ::
  "km_id_t \<Rightarrow> ('w::len) word AccessCount list \<Rightarrow> 'w word AccessCount list option" where
  "IncrementKeyAccessCount_loop k [] = None"
| "IncrementKeyAccessCount_loop k (e # es) =
     (if keyid e = k
      then Some ((if access_count e < max_value (access_count e)
                  then e\<lparr>access_count := access_count e + 1\<rparr> else e) # es)
      else (case IncrementKeyAccessCount_loop k es of
              None \<Rightarrow> None
            | Some es' \<Rightarrow> Some (e # es')))"

definition IncrementKeyAccessCount ::
  "('w::len) word AccessCountMap \<Rightarrow> km_id_t \<Rightarrow> bool \<times> 'w word AccessCountMap" where
  "IncrementKeyAccessCount m k =
     (case IncrementKeyAccessCount_loop k (access_count_list m) of
        Some es \<Rightarrow> (True, m\<lparr>access_count_list := es\<rparr>)
      | None \<Rightarrow>
          if max_size m \<le> length (access_count_list m) then (False, m)
          else (True, m\<lparr>access_count_list :=
                 \<lparr>keyid = k, access_count = 1\<rparr> # access_count_list m\<rparr>))"

subsection \<open>Authorization sets\<close>

text \<open>
  Modelled from the spec: the enumerations of the platform header keymaster_defs.h, which
  is not among the sources. The spec names the four purposes (any other value is
  "unsupported") and the two asymmetric public-key algorithms; every other enumerator is
  the \<open>OTHER\<close> constructor with its numeric value.
\<close>

datatype keymaster_purpose_t =
    KM_PURPOSE_ENCRYPT
  | KM_PURPOSE_DECRYPT
  | KM_PURPOSE_SIGN
  | KM_PURPOSE_VERIFY
  | KM_PURPOSE_OTHER nat

datatype keymaster_algorithm_t =
    KM_ALGORITHM_RSA
  | KM_ALGORITHM_EC
  | KM_ALGORITHM_OTHER nat

text \<open>
  The tags that keymaster_enforcement.cpp names; \<open>KM_TAG_OTHER\<close> is any tag value that
  no \<open>case\<close> label of the source lists.
\<close>

datatype keymaster_tag_t =
    KM_TAG_INVALID
  | KM_TAG_PURPOSE
  | KM_TAG_ALGORITHM
  | KM_TAG_KEY_SIZE
  | KM_TAG_BLOCK_MODE
  | KM_TAG_DIGEST
  | KM_TAG_MAC_LENGTH
  | KM_TAG_PADDING
  | KM_TAG_NONCE
  | KM_TAG_CALLER_NONCE
  | KM_TAG_BLOB_USAGE_REQUIREMENTS
  | KM_TAG_RSA_PUBLIC_EXPONENT
  | KM_TAG_BOOTLOADER_ONLY
  | KM_TAG_ACTIVE_DATETIME
  | KM_TAG_ORIGINATION_EXPIRE_DATETIME
  | KM_TAG_USAGE_EXPIRE_DATETIME
  | KM_TAG_MIN_SECONDS_BETWEEN_OPS
  | KM_TAG_MAX_USES_PER_BOOT
  | KM_TAG_ALL_USERS
  | KM_TAG_USER_ID
  | KM_TAG_USER_SECURE_ID
  | KM_TAG_NO_AUTH_REQUIRED
  | KM_TAG_USER_AUTH_TYPE
  | KM_TAG_AUTH_TIMEOUT
  | KM_TAG_ALL_APPLICATIONS
  | KM_TAG_APPLICATION_ID
  | KM_TAG_APPLICATION_DATA
  | KM_TAG_CREATION_DATETIME
  | KM_TAG_ORIGIN
  | KM_TAG_ROLLBACK_RESISTANT
  | KM_TAG_ROOT_OF_TRUST
  | KM_TAG_ASSOCIATED_DATA
  | KM_TAG_AUTH_TOKEN
  | KM_TAG_PADDING_OLD
  | KM_TAG_DIGEST_OLD
  | KM_TAG_OTHER nat

text \<open>
  The value of an enumerated entry: a purpose under \<open>KM_TAG_PURPOSE\<close>, an algorithm under
  \<open>KM_TAG_ALGORITHM\<close>, a number under the other enumerated tags.
\<close>

datatype enumerated_t =
    Purpose keymaster_purpose_t
  | Algorithm keymaster_algorithm_t
  | Enumerator nat

text \<open>
  \<open>keymaster_key_param_t\<close>: a tag and the members of the value union that the source
  reads (\<open>enumerated\<close>, \<open>integer\<close>, \<open>long_integer\<close>, \<open>date_time\<close>, \<open>blob\<close>). The source
  reads only the member that goes with the entry's tag, so the members are kept as
  separate fields. An authorization set is the list of its entries in storage order.
\<close>

record keymaster_key_param_t =
  tag :: keymaster_tag_t
  enumerated :: enumerated_t
  integer :: "32 word"
  long_integer :: "64 word"
  date_time :: "64 word"
  blob :: "8 word list"

type_synonym AuthorizationSet = "keymaster_key_param_t list"

text \<open>
  Modelled from the spec: the accessors of the external \<open>AuthorizationSet\<close> collection
  (authorization_set.h is not among the sources), "ordered sequences of such entries
  ... duplicates are possible and must be tolerated by scanning". \<open>find_from\<close> is
  \<open>find(tag)\<close>: the index of the first entry with the tag, or \<open>-1\<close>. \<open>GetTagValue\<close>
  gives the first entry with the tag, from which the caller reads the member of the
  tag's type. \<open>Contains\<close> scans for an entry with the tag and the enumerated value.
\<close>

fun find_from :: "nat \<Rightarrow> AuthorizationSet \<Rightarrow> keymaster_tag_t \<Rightarrow> int" where
  "find_from pos [] t = - 1"
| "find_from pos (p # ps) t = (if tag p = t then int pos else find_from (Suc pos) ps t)"

definition find_tag :: "AuthorizationSet \<Rightarrow> keymaster_tag_t \<Rightarrow> int" where
  "find_tag s t = find_from 0 s t"

fun GetTagValue :: "AuthorizationSet \<Rightarrow> keymaster_tag_t \<Rightarrow> keymaster_key_param_t option" where
  "GetTagValue [] t = None"
| "GetTagValue (p # ps) t = (if tag p = t then Some p else GetTagValue ps t)"

fun Contains :: "AuthorizationSet \<Rightarrow> keymaster_tag_t \<Rightarrow> enumerated_t \<Rightarrow> bool" where
  "Contains [] t v = False"
| "Contains (p # ps) t v = ((tag p = t \<and> enumerated p = v) \<or> Contains ps t v)"

subsection \<open>Purpose authorization\<close>

definition is_public_key_algorithm :: "AuthorizationSet \<Rightarrow> bool" where
  "is_public_key_algorithm auth_set =
     (case GetTagValue auth_set KM_TAG_ALGORITHM of
        None \<Rightarrow> False
      | Some p \<Rightarrow> enumerated p = Algorithm KM_ALGORITHM_RSA
                 \<or> enumerated p = Algorithm KM_ALGORITHM_EC)"

fun authorized_purpose :: "keymaster_purpose_t \<Rightarrow> AuthorizationSet \<Rightarrow> keymaster_error_t" where
  "authorized_purpose KM_PURPOSE_VERIFY auth_set =
     (if is_public_key_algorithm auth_set
         \<or> Contains auth_set KM_TAG_PURPOSE (Purpose KM_PURPOSE_VERIFY)
      then KM_ERROR_OK else KM_ERROR_INCOMPATIBLE_PURPOSE)"
| "authorized_purpose KM_PURPOSE_ENCRYPT auth_set =
     (if is_public_key_algorithm auth_set
         \<or> Contains auth_set KM_TAG_PURPOSE (Purpose KM_PURPOSE_ENCRYPT)
      then KM_ERROR_OK else KM_ERROR_INCOMPATIBLE_PURPOSE)"
| "authorized_purpose KM_PURPOSE_SIGN auth_set =
     (if Contains auth_set KM_TAG_PURPOSE (Purpose KM_PURPOSE_SIGN)
      then KM_ERROR_OK else KM_ERROR_INCOMPATIBLE_PURPOSE)"
| "authorized_purpose KM_PURPOSE_DECRYPT auth_set =
     (if Contains auth_set KM_TAG_PURPOSE (Purpose KM_PURPOSE_DECRYPT)
      then KM_ERROR_OK else KM_ERROR_INCOMPATIBLE_PURPOSE)"
| "authorized_purpose (KM_PURPOSE_OTHER n) auth_set = KM_ERROR_UNSUPPORTED_PURPOSE"

definition is_origination_purpose :: "keymaster_purpose_t \<Rightarrow> bool" where
  "is_origination_purpose purpose =
     (purpose = KM_PURPOSE_ENCRYPT \<or> purpose = KM_PURPOSE_SIGN)"

definition is_usage_purpose :: "keymaster_purpose_t \<Rightarrow> bool" where
  "is_usage_purpose purpose =
     (purpose = KM_PURPOSE_DECRYPT \<or> purpose = KM_PURPOSE_VERIFY)"

definition can_skip_authentication :: "bool \<Rightarrow> bool \<Rightarrow> bool" where
  "can_skip_authentication is_begin_operation is_auth_per_op_key =
     (is_begin_operation \<and> is_auth_per_op_key)"

subsection \<open>Authentication tokens\<close>

text \<open>
  Modelled from the spec: \<open>hw_auth_token_t\<close> of the platform header hw_auth_token.h, by
  the wire format of the spec: version (1 byte), challenge (8), user_id (8),
  authenticator_id (8), authenticator_type (4, network order), timestamp (8), and the
  authenticity tag (32), a packed structure of 69 bytes. \<open>memcpy_token\<close> is the
  \<open>memcpy\<close> of the blob into the structure on a little-endian host, and \<open>ntoh\<close> the
  byte swap that decodes a 32-bit field from network order there.
\<close>

record hw_auth_token_t =
  version :: "8 word"
  challenge :: "64 word"
  user_id :: "64 word"
  authenticator_id :: "64 word"
  authenticator_type :: "32 word"
  timestamp :: "64 word"
  hmac :: "8 word list"

definition sizeof_hw_auth_token_t :: nat where
  "sizeof_hw_auth_token_t = 69"

fun le_word :: "8 word list \<Rightarrow> 'a::len word" where
  "le_word [] = 0"
| "le_word (b # bs) = ucast b OR push_bit 8 (le_word bs)"

definition field :: "nat \<Rightarrow> nat \<Rightarrow> 8 word list \<Rightarrow> 8 word list" where
  "field off n bs = take n (drop off bs)"

definition memcpy_token :: "8 word list \<Rightarrow> hw_auth_token_t" where
  "memcpy_token bs =
     \<lparr>version = le_word (field 0 1 bs),
      challenge = le_word (field 1 8 bs),
      user_id = le_word (field 9 8 bs),
      authenticator_id = le_word (field 17 8 bs),
      authenticator_type = le_word (field 25 4 bs),
      timestamp = le_word (field 29 8 bs),
      hmac = field 37 32 bs\<rparr>"

definition ntoh :: "32 word \<Rightarrow> 32 word" where
  "ntoh w =
     push_bit 24 (w AND 0xFF) OR push_bit 16 (drop_bit 8 w AND 0xFF)
       OR push_bit 8 (drop_bit 16 w AND 0xFF) OR drop_bit 24 w"

subsection \<open>The platform's capabilities\<close>

text \<open>
  The pure virtual members of \<open>KeymasterEnforcement\<close> that the platform implements, and
  the constant \<open>HW_AUTH_TOKEN_VERSION\<close> of the platform header, as parameters. One call
  of \<open>AuthorizeOperation\<close> reads the clock as one value.
\<close>

record platform =
  get_current_time :: "32 word"
  activation_date_valid :: "64 word \<Rightarrow> bool"
  expiration_date_passed :: "64 word \<Rightarrow> bool"
  auth_token_timed_out :: "hw_auth_token_t \<Rightarrow> 32 word \<Rightarrow> bool"
  ValidateTokenSignature :: "hw_auth_token_t \<Rightarrow> bool"
  HW_AUTH_TOKEN_VERSION :: "8 word"

text \<open>The two tables are the state of a \<open>KeymasterEnforcement\<close> object.\<close>

record 'c KeymasterEnforcement =
  access_time_map :: AccessTimeMap
  access_count_map :: "'c AccessCountMap"

section \<open>The operations\<close>

subsection \<open>Rate and count limits\<close>

text \<open>
  \<open>MinTimeBetweenOpsPassed\<close>: the comparison
  \<open>min_time_between <= static_cast<int64_t>(get_current_time()) - last_access_time\<close> is
  one of 64-bit signed integers, which hold every difference of two 32-bit values.
\<close>

definition MinTimeBetweenOpsPassed ::
  "platform \<Rightarrow> 'c KeymasterEnforcement \<Rightarrow> 32 word \<Rightarrow> km_id_t \<Rightarrow> bool" where
  "MinTimeBetweenOpsPassed env st min_time_between k =
     (case LastKeyAccessTime (access_time_map st) k of
        None \<Rightarrow> True
      | Some last_access_time \<Rightarrow>
          uint min_time_between \<le> uint (get_current_time env) - uint last_access_time)"

definition MaxUsesPerBootNotExceeded ::
  "('w::len) word KeymasterEnforcement \<Rightarrow> km_id_t \<Rightarrow> 32 word \<Rightarrow> bool" where
  "MaxUsesPerBootNotExceeded st k max_uses =
     (case KeyAccessCount (access_count_map st) k of
        None \<Rightarrow> True
      | Some key_access_count \<Rightarrow> key_access_count < max_uses)"

subsection \<open>The token validator\<close>

text \<open>
  \<open>AuthTokenMatches\<close>, with its assertions enabled. \<open>None\<close> is a call that does not
  return: a failed \<open>assert\<close>, or the read of \<open>auth_set[auth_timeout_index]\<close> at a
  negative index other than \<open>-1\<close>. \<open>Some b\<close> is the return of \<open>b\<close>. The test of the
  entry's tag that follows each of the two later assertions repeats the assertion, so it
  never fails where the assertion has passed.
\<close>

definition AuthTokenMatches ::
  "platform \<Rightarrow> AuthorizationSet \<Rightarrow> AuthorizationSet \<Rightarrow> 64 word \<Rightarrow> int \<Rightarrow> int
     \<Rightarrow> keymaster_operation_handle_t \<Rightarrow> bool \<Rightarrow> bool option" where
  "AuthTokenMatches env auth_set operation_params user_secure_id auth_type_index
       auth_timeout_index op_handle is_begin_operation =
     (if \<not> auth_type_index < int (length auth_set) then None
      else if \<not> auth_timeout_index < int (length auth_set) then None
      else case GetTagValue operation_params KM_TAG_AUTH_TOKEN of
        None \<Rightarrow> Some False
      | Some auth_token_param \<Rightarrow>
          if length (blob auth_token_param) \<noteq> sizeof_hw_auth_token_t then Some False
          else
            let auth_token = memcpy_token (blob auth_token_param) in
            if version auth_token \<noteq> HW_AUTH_TOKEN_VERSION env then Some False
            else if \<not> ValidateTokenSignature env auth_token then Some False
            else if auth_timeout_index = - 1 \<and> op_handle \<noteq> 0
                    \<and> op_handle \<noteq> challenge auth_token then Some False
            else if user_secure_id \<noteq> user_id auth_token
                    \<and> user_secure_id \<noteq> authenticator_id auth_token then Some False
            else if auth_type_index < 0 \<or> auth_type_index > int (length auth_set)
              then Some False
            else if tag (auth_set ! nat auth_type_index) \<noteq> KM_TAG_USER_AUTH_TYPE then None
            else
              let key_auth_type_mask = integer (auth_set ! nat auth_type_index);
                  token_auth_type = ntoh (authenticator_type auth_token) in
              if key_auth_type_mask AND token_auth_type = 0 then Some False
              else if auth_timeout_index \<noteq> - 1 \<and> is_begin_operation then
                (if auth_timeout_index < 0 then None
                 else if tag (auth_set ! nat auth_timeout_index) \<noteq> KM_TAG_AUTH_TIMEOUT
                   then None
                 else if auth_token_timed_out env auth_token
                           (integer (auth_set ! nat auth_timeout_index))
                   then Some False
                 else Some True)
              else Some True)"

text \<open>
  The accesses of \<open>AuthTokenMatches\<close> to the token blob of the operation parameters, in
  the order in which the source makes them. The blob is touched in two places only: the
  test of line 294 reads its \<open>data_length\<close>, and the \<open>memcpy\<close> of line 301 reads
  \<open>sizeof(hw_auth_token_t)\<close> bytes of its \<open>data\<close> into the local \<open>auth_token\<close>; every
  field is then read from that copy (lines 302 to 353, \<open>check_token\<close>).
  \<open>AuthTokenMatches_accesses\<close> is the same function, returning with its result the
  accesses it has made to the blob when it returns; the token it tests is made of the
  bytes that the \<open>memcpy\<close> has read.
\<close>

datatype blob_access = Read_data_length | Read_data nat

definition check_token ::
  "platform \<Rightarrow> AuthorizationSet \<Rightarrow> hw_auth_token_t \<Rightarrow> 64 word \<Rightarrow> int \<Rightarrow> int
     \<Rightarrow> keymaster_operation_handle_t \<Rightarrow> bool \<Rightarrow> bool option" where
  "check_token env auth_set auth_token user_secure_id auth_type_index auth_timeout_index
       op_handle is_begin_operation =
     (if version auth_token \<noteq> HW_AUTH_TOKEN_VERSION env then Some False
      else if \<not> ValidateTokenSignature env auth_token then Some False
      else if auth_timeout_index = - 1 \<and> op_handle \<noteq> 0
              \<and> op_handle \<noteq> challenge auth_token then Some False
      else if user_secure_id \<noteq> user_id auth_token
              \<and> user_secure_id \<noteq> authenticator_id auth_token then Some False
      else if auth_type_index < 0 \<or> auth_type_index > int (length auth_set)
        then Some False
      else if tag (auth_set ! nat auth_type_index) \<noteq> KM_TAG_USER_AUTH_TYPE then None
      else
        let key_auth_type_mask = integer (auth_set ! nat auth_type_index);
            token_auth_type = ntoh (authenticator_type auth_token) in
        if key_auth_type_mask AND token_auth_type = 0 then Some False
        else if auth_timeout_index \<noteq> - 1 \<and> is_begin_operation then
          (if auth_timeout_index < 0 then None
           else if tag (auth_set ! nat auth_timeout_index) \<noteq> KM_TAG_AUTH_TIMEOUT
             then None
           else if auth_token_timed_out env auth_token
                     (integer (auth_set ! nat auth_timeout_index))
             then Some False
           else Some True)
        else Some True)"

definition AuthTokenMatches_accesses ::
  "platform \<Rightarrow> AuthorizationSet \<Rightarrow> AuthorizationSet \<Rightarrow> 64 word \<Rightarrow> int \<Rightarrow> int
     \<Rightarrow> keymaster_operation_handle_t \<Rightarrow> bool \<Rightarrow> bool option \<times> blob_access list" where
  "AuthTokenMatches_accesses env auth_set operation_params user_secure_id auth_type_index
       auth_timeout_index op_handle is_begin_operation =
     (if \<not> auth_type_index < int (length auth_set) then (None, [])
      else if \<not> auth_timeout_index < int (length auth_set) then (None, [])
      else case GetTagValue operation_params KM_TAG_AUTH_TOKEN of
        None \<Rightarrow> (Some False, [])
      | Some auth_token_param \<Rightarrow>
          if length (blob auth_token_param) \<noteq> sizeof_hw_auth_token_t
          then (Some False, [Read_data_length])
          else
            let auth_token =
                  memcpy_token (take sizeof_hw_auth_token_t (blob auth_token_param)) in
            (check_token env auth_set auth_token user_secure_id auth_type_index
               auth_timeout_index op_handle is_begin_operation,
             [Read_data_length, Read_data sizeof_hw_auth_token_t]))"

subsection \<open>The policy evaluator\<close>

text \<open>
  The first loop of \<open>AuthorizeOperation\<close> records the position of the last
  \<open>KM_TAG_AUTH_TIMEOUT\<close>, \<open>KM_TAG_USER_AUTH_TYPE\<close> and \<open>KM_TAG_NO_AUTH_REQUIRED\<close> entry,
  \<open>-1\<close> where there is none.
\<close>

record indices =
  auth_timeout_index :: int
  auth_type_index :: int
  no_auth_required_index :: int

fun find_entries :: "nat \<Rightarrow> AuthorizationSet \<Rightarrow> indices \<Rightarrow> indices" where
  "find_entries pos [] ix = ix"
| "find_entries pos (p # ps) ix =
     find_entries (Suc pos) ps
       (case tag p of
          KM_TAG_AUTH_TIMEOUT \<Rightarrow> ix\<lparr>auth_timeout_index := int pos\<rparr>
        | KM_TAG_USER_AUTH_TYPE \<Rightarrow> ix\<lparr>auth_type_index := int pos\<rparr>
        | KM_TAG_NO_AUTH_REQUIRED \<Rightarrow> ix\<lparr>no_auth_required_index := int pos\<rparr>
        | _ \<Rightarrow> ix)"

text \<open>
  The local variables that the second loop updates, and what one iteration does: it
  goes on with new variables, returns an error from the function, or does not return
  (\<open>Abort\<close>, when \<open>AuthTokenMatches\<close> does not).
\<close>

record locals =
  min_ops_timeout :: "32 word"
  update_access_count :: bool
  found_caller_nonce :: bool
  authentication_required :: bool
  auth_token_matched :: bool

datatype 'a flow = Abort | Return keymaster_error_t | Continue 'a

fun for_each :: "('p \<Rightarrow> 's \<Rightarrow> 's flow) \<Rightarrow> 'p list \<Rightarrow> 's \<Rightarrow> 's flow" where
  "for_each body [] s = Continue s"
| "for_each body (p # ps) s =
     (case body p s of
        Abort \<Rightarrow> Abort
      | Return e \<Rightarrow> Return e
      | Continue s' \<Rightarrow> for_each body ps s')"

definition check_param ::
  "platform \<Rightarrow> ('w::len) word KeymasterEnforcement \<Rightarrow> keymaster_purpose_t \<Rightarrow> km_id_t
     \<Rightarrow> AuthorizationSet
     \<Rightarrow> AuthorizationSet \<Rightarrow> keymaster_operation_handle_t \<Rightarrow> bool \<Rightarrow> indices
     \<Rightarrow> keymaster_key_param_t \<Rightarrow> locals \<Rightarrow> locals flow" where
  "check_param env st purpose k auth_set operation_params op_handle is_begin_operation ix
       param v =
     (if tag param = KM_TAG_PADDING_OLD \<or> tag param = KM_TAG_DIGEST_OLD then Continue v
      else case tag param of
        KM_TAG_ACTIVE_DATETIME \<Rightarrow>
          if \<not> activation_date_valid env (date_time param)
          then Return KM_ERROR_KEY_NOT_YET_VALID else Continue v
      | KM_TAG_ORIGINATION_EXPIRE_DATETIME \<Rightarrow>
          if is_origination_purpose purpose \<and> expiration_date_passed env (date_time param)
          then Return KM_ERROR_KEY_EXPIRED else Continue v
      | KM_TAG_USAGE_EXPIRE_DATETIME \<Rightarrow>
          if is_usage_purpose purpose \<and> expiration_date_passed env (date_time param)
          then Return KM_ERROR_KEY_EXPIRED else Continue v
      | KM_TAG_MIN_SECONDS_BETWEEN_OPS \<Rightarrow>
          if \<not> MinTimeBetweenOpsPassed env st (integer param) k
          then Return KM_ERROR_KEY_RATE_LIMIT_EXCEEDED
          else Continue (v\<lparr>min_ops_timeout := integer param\<rparr>)
      | KM_TAG_MAX_USES_PER_BOOT \<Rightarrow>
          if \<not> MaxUsesPerBootNotExceeded st k (integer param)
          then Return KM_ERROR_KEY_MAX_OPS_EXCEEDED
          else Continue (v\<lparr>update_access_count := True\<rparr>)
      | KM_TAG_USER_SECURE_ID \<Rightarrow>
          if no_auth_required_index ix \<noteq> - 1 then Return KM_ERROR_INVALID_KEY_BLOB
          else if \<not> can_skip_authentication is_begin_operation (auth_timeout_index ix = - 1)
                  \<or> find_tag operation_params KM_TAG_AUTH_TOKEN \<noteq> - 1
          then (case AuthTokenMatches env auth_set operation_params (long_integer param)
                       (auth_type_index ix) (auth_timeout_index ix) op_handle
                       is_begin_operation of
                  None \<Rightarrow> Abort
                | Some True \<Rightarrow>
                    Continue (v\<lparr>authentication_required := True, auth_token_matched := True\<rparr>)
                | Some False \<Rightarrow> Continue (v\<lparr>authentication_required := True\<rparr>))
          else Continue v
      | KM_TAG_CALLER_NONCE \<Rightarrow> Continue (v\<lparr>found_caller_nonce := True\<rparr>)
      | KM_TAG_INVALID \<Rightarrow> Return KM_ERROR_INVALID_KEY_BLOB
      | KM_TAG_AUTH_TOKEN \<Rightarrow> Return KM_ERROR_INVALID_KEY_BLOB
      | KM_TAG_ROOT_OF_TRUST \<Rightarrow> Return KM_ERROR_INVALID_KEY_BLOB
      | KM_TAG_APPLICATION_DATA \<Rightarrow> Return KM_ERROR_INVALID_KEY_BLOB
      | KM_TAG_BOOTLOADER_ONLY \<Rightarrow> Return KM_ERROR_INVALID_KEY_BLOB
      | _ \<Rightarrow> Continue v)"

text \<open>
  The two loops of \<open>AuthorizeOperation\<close> over the whole policy, from the initial values
  of their variables.
\<close>

definition find_key_entries :: "AuthorizationSet \<Rightarrow> indices" where
  "find_key_entries auth_set =
     find_entries 0 auth_set
       \<lparr>auth_timeout_index = - 1, auth_type_index = - 1, no_auth_required_index = - 1\<rparr>"

definition check_params ::
  "platform \<Rightarrow> ('w::len) word KeymasterEnforcement \<Rightarrow> keymaster_purpose_t \<Rightarrow> km_id_t
     \<Rightarrow> AuthorizationSet
     \<Rightarrow> AuthorizationSet \<Rightarrow> keymaster_operation_handle_t \<Rightarrow> bool \<Rightarrow> indices
     \<Rightarrow> locals flow" where
  "check_params env st purpose k auth_set operation_params op_handle is_begin_operation ix =
     for_each
       (check_param env st purpose k auth_set operation_params op_handle
          is_begin_operation ix)
       auth_set
       \<lparr>min_ops_timeout = UINT32_MAX, update_access_count = False,
        found_caller_nonce = False, authentication_required = False,
        auth_token_matched = False\<rparr>"

text \<open>
  \<open>AuthorizeOperation\<close> returns an error code and leaves the object in a new state, or
  does not return (\<open>None\<close>) when an assertion fails on the way.
\<close>

definition AuthorizeOperation ::
  "platform \<Rightarrow> ('w::len) word KeymasterEnforcement \<Rightarrow> keymaster_purpose_t \<Rightarrow> km_id_t
     \<Rightarrow> AuthorizationSet
     \<Rightarrow> AuthorizationSet \<Rightarrow> keymaster_operation_handle_t \<Rightarrow> bool
     \<Rightarrow> (keymaster_error_t \<times> 'w word KeymasterEnforcement) option" where
  "AuthorizeOperation env st purpose k auth_set operation_params op_handle
       is_begin_operation =
     (let ix = find_key_entries auth_set;
          error = authorized_purpose purpose auth_set in
      if error \<noteq> KM_ERROR_OK then Some (error, st)
      else
        case check_params env st purpose k auth_set operation_params op_handle
               is_begin_operation ix of
          Abort \<Rightarrow> None
        | Return e \<Rightarrow> Some (e, st)
        | Continue v \<Rightarrow>
            if authentication_required v \<and> \<not> auth_token_matched v
            then Some (KM_ERROR_KEY_USER_NOT_AUTHENTICATED, st)
            else if \<not> found_caller_nonce v \<and> find_tag operation_params KM_TAG_NONCE \<noteq> - 1
            then Some (KM_ERROR_CALLER_NONCE_PROHIBITED, st)
            else
              case (if min_ops_timeout v \<noteq> UINT32_MAX
                    then UpdateKeyAccessTime (access_time_map st) k (get_current_time env)
                           (min_ops_timeout v)
                    else Some (True, access_time_map st)) of
                None \<Rightarrow> None
              | Some (time_ok, tm) \<Rightarrow>
                  if \<not> time_ok
                  then Some (KM_ERROR_TOO_MANY_OPERATIONS, st\<lparr>access_time_map := tm\<rparr>)
                  else
                    let (count_ok, cm) =
                          (if update_access_count v
                           then IncrementKeyAccessCount (access_count_map st) k
                           else (True, access_count_map st)) in
                    if \<not> count_ok
                    then Some (KM_ERROR_TOO_MANY_OPERATIONS,
                               st\<lparr>access_time_map := tm, access_count_map := cm\<rparr>)
                    else Some (KM_ERROR_OK,
                               st\<lparr>access_time_map := tm, access_count_map := cm\<rparr>))"

section \<open>Inputs of the examples\<close>

text \<open>
  Full count tables with a counter field of 64 bits: one whose only counter stands at
  the maximum of the field, one whose counter stands at the largest 32-bit value.
\<close>

definition count_table_full :: "64 word AccessCountMap" where
  "count_table_full =
     \<lparr>max_size = 1,
      access_count_list = [\<lparr>keyid = 7, access_count = 0xFFFFFFFFFFFFFFFF\<rparr>]\<rparr>"

definition count_table_wide :: "64 word AccessCountMap" where
  "count_table_wide =
     \<lparr>max_size = 1, access_count_list = [\<lparr>keyid = 7, access_count = 0xFFFFFFFF\<rparr>]\<rparr>"

text \<open>A time table of two entries, the first of which has expired at time 20.\<close>

definition time_table_two :: AccessTimeMap where
  "time_table_two =
     \<lparr>max_size = 2,
      last_access_list = [\<lparr>keyid = 1, access_time = 10, timeout = 5\<rparr>,
                          \<lparr>keyid = 2, access_time = 18, timeout = 5\<rparr>]\<rparr>"

text \<open>Entries of an authorization set, by the member of the value union they carry.\<close>

definition param_enum :: "keymaster_tag_t \<Rightarrow> enumerated_t \<Rightarrow> keymaster_key_param_t" where
  "param_enum t v =
     \<lparr>tag = t, enumerated = v, integer = 0, long_integer = 0, date_time = 0, blob = []\<rparr>"

definition param_int :: "keymaster_tag_t \<Rightarrow> 32 word \<Rightarrow> keymaster_key_param_t" where
  "param_int t n =
     \<lparr>tag = t, enumerated = Enumerator 0, integer = n, long_integer = 0, date_time = 0,
      blob = []\<rparr>"

definition param_long :: "keymaster_tag_t \<Rightarrow> 64 word \<Rightarrow> keymaster_key_param_t" where
  "param_long t n =
     \<lparr>tag = t, enumerated = Enumerator 0, integer = 0, long_integer = n, date_time = 0,
      blob = []\<rparr>"

definition param_date :: "keymaster_tag_t \<Rightarrow> 64 word \<Rightarrow> keymaster_key_param_t" where
  "param_date t d =
     \<lparr>tag = t, enumerated = Enumerator 0, integer = 0, long_integer = 0, date_time = d,
      blob = []\<rparr>"

definition param_blob :: "keymaster_tag_t \<Rightarrow> 8 word list \<Rightarrow> keymaster_key_param_t" where
  "param_blob t bs =
     \<lparr>tag = t, enumerated = Enumerator 0, integer = 0, long_integer = 0, date_time = 0,
      blob = bs\<rparr>"

text \<open>
  A platform at time 100 that accepts every token whose authenticity tag starts with
  the byte 1, with dates valid up to the current time.
\<close>

definition test_platform :: platform where
  "test_platform =
     \<lparr>get_current_time = 100,
      activation_date_valid = (\<lambda>d. d \<le> 100),
      expiration_date_passed = (\<lambda>d. d < 100),
      auth_token_timed_out = (\<lambda>t tmo. uint (timestamp t) + uint tmo < 100),
      ValidateTokenSignature = (\<lambda>t. take 1 (hmac t) = [1]),
      HW_AUTH_TOKEN_VERSION = 0\<rparr>"

text \<open>
  A token of 69 bytes: version 0, challenge 5, user id 42, authenticator id 9,
  authenticator type 1 in network order, timestamp 90, and a tag; and the same token
  with a tag that the platform rejects.
\<close>

definition token_bytes :: "8 word \<Rightarrow> 8 word list" where
  "token_bytes mac =
     [0] @ [5, 0, 0, 0, 0, 0, 0, 0] @ [42, 0, 0, 0, 0, 0, 0, 0] @ [9, 0, 0, 0, 0, 0, 0, 0]
       @ [0, 0, 0, 1] @ [90, 0, 0, 0, 0, 0, 0, 0] @ mac # replicate 31 0"

text \<open>
  A key limited to one operation in 10 seconds and to 5 uses per boot, and a state
  whose time table is empty while its count table is filled by another key.
\<close>

definition limited_key :: AuthorizationSet where
  "limited_key =
     [param_enum KM_TAG_PURPOSE (Purpose KM_PURPOSE_SIGN),
      param_int KM_TAG_MIN_SECONDS_BETWEEN_OPS 10,
      param_int KM_TAG_MAX_USES_PER_BOOT 5]"

definition count_full_state :: "64 word KeymasterEnforcement" where
  "count_full_state =
     \<lparr>access_time_map = \<lparr>max_size = 1, last_access_list = []\<rparr>,
      access_count_map =
        \<lparr>max_size = 1, access_count_list = [\<lparr>keyid = 2, access_count = 1\<rparr>]\<rparr>\<rparr>"

text \<open>
  The state that the refused call on \<open>limited_key\<close> leaves, and a state whose time
  table is filled by another key, not expired at time 100, while its count table is
  empty.
\<close>

definition refused_state :: "64 word KeymasterEnforcement" where
  "refused_state =
     \<lparr>access_time_map =
        \<lparr>max_size = 1,
         last_access_list = [\<lparr>keyid = 1, access_time = 100, timeout = 10\<rparr>]\<rparr>,
      access_count_map =
        \<lparr>max_size = 1, access_count_list = [\<lparr>keyid = 2, access_count = 1\<rparr>]\<rparr>\<rparr>"

definition time_full_state :: "64 word KeymasterEnforcement" where
  "time_full_state =
     \<lparr>access_time_map =
        \<lparr>max_size = 1,
         last_access_list = [\<lparr>keyid = 2, access_time = 95, timeout = 100\<rparr>]\<rparr>,
      access_count_map = \<lparr>max_size = 1, access_count_list = []\<rparr>\<rparr>"

text \<open>
  Both tables empty, with room for four keys each. The example states have a counter
  field of 64 bits.
\<close>

definition fresh_state :: "64 word KeymasterEnforcement" where
  "fresh_state =
     \<lparr>access_time_map = \<lparr>max_size = 4, last_access_list = []\<rparr>,
      access_count_map = \<lparr>max_size = 4, access_count_list = []\<rparr>\<rparr>"

text \<open>
  Keys bound to the secure user id 42: one authenticated per operation, one with an
  authentication timeout of 30 seconds and an origination expiry in the past, one with
  no authenticator type, and one with no authenticator type that is not yet active.
\<close>

definition per_op_key :: AuthorizationSet where
  "per_op_key =
     [param_enum KM_TAG_PURPOSE (Purpose KM_PURPOSE_SIGN),
      param_long KM_TAG_USER_SECURE_ID 42,
      param_int KM_TAG_USER_AUTH_TYPE 1]"

definition expired_timed_key :: AuthorizationSet where
  "expired_timed_key =
     [param_enum KM_TAG_PURPOSE (Purpose KM_PURPOSE_SIGN),
      param_long KM_TAG_USER_SECURE_ID 42,
      param_int KM_TAG_USER_AUTH_TYPE 1,
      param_int KM_TAG_AUTH_TIMEOUT 30,
      param_date KM_TAG_ORIGINATION_EXPIRE_DATETIME 50]"

definition untyped_key :: AuthorizationSet where
  "untyped_key =
     [param_enum KM_TAG_PURPOSE (Purpose KM_PURPOSE_SIGN),
      param_long KM_TAG_USER_SECURE_ID 42]"

definition inactive_untyped_key :: AuthorizationSet where
  "inactive_untyped_key =
     [param_enum KM_TAG_PURPOSE (Purpose KM_PURPOSE_SIGN),
      param_long KM_TAG_USER_SECURE_ID 42,
      param_date KM_TAG_ACTIVE_DATETIME 200]"

text \<open>
  Keys with the limits at their extreme values: no use per boot, and the largest
  minimum number of seconds between operations; and a key limited to one operation in
  10 seconds.
\<close>

definition no_use_key :: AuthorizationSet where
  "no_use_key =
     [param_enum KM_TAG_PURPOSE (Purpose KM_PURPOSE_SIGN),
      param_int KM_TAG_MAX_USES_PER_BOOT 0]"

definition longest_interval_key :: AuthorizationSet where
  "longest_interval_key =
     [param_enum KM_TAG_PURPOSE (Purpose KM_PURPOSE_SIGN),
      param_int KM_TAG_MIN_SECONDS_BETWEEN_OPS 0xFFFFFFFF]"

definition ten_seconds_key :: AuthorizationSet where
  "ten_seconds_key =
     [param_enum KM_TAG_PURPOSE (Purpose KM_PURPOSE_SIGN),
      param_int KM_TAG_MIN_SECONDS_BETWEEN_OPS 10]"

text \<open>The states after one operation on key 1 that was counted, or timed at 100.\<close>

definition counted_once :: "64 word KeymasterEnforcement" where
  "counted_once =
     \<lparr>access_time_map = \<lparr>max_size = 4, last_access_list = []\<rparr>,
      access_count_map =
        \<lparr>max_size = 4, access_count_list = [\<lparr>keyid = 1, access_count = 1\<rparr>]\<rparr>\<rparr>"

definition timed_once :: "64 word KeymasterEnforcement" where
  "timed_once =
     \<lparr>access_time_map =
        \<lparr>max_size = 4,
         last_access_list = [\<lparr>keyid = 1, access_time = 100, timeout = 10\<rparr>]\<rparr>,
      access_count_map = \<lparr>max_size = 4, access_count_list = []\<rparr>\<rparr>"

section \<open>Properties of the usage tables\<close>

subsection \<open>The count table\<close>

lemma KeyAccessCount_loop_stored:
  "KeyAccessCount_loop es k = map_option ucast (stored_count_loop es k)"
  by (induction es) auto

lemma KeyAccessCount_stored:
  "KeyAccessCount m k = map_option ucast (stored_count m k)"
  by (simp add: KeyAccessCount_def stored_count_def KeyAccessCount_loop_stored)

lemma Increment_loop_None:
  "(IncrementKeyAccessCount_loop k es = None) = (stored_count_loop es k = None)"
  by (induction es) (auto split: option.splits)

lemma Increment_loop_same:
  "stored_count_loop es k = Some c \<Longrightarrow>
   \<exists>es'. IncrementKeyAccessCount_loop k es = Some es'
     \<and> stored_count_loop es' k = Some (if c < max_value c then c + 1 else c)"
  by (induction es)
    (auto split: option.splits if_splits simp: Increment_loop_None max_value_def)

lemma Increment_loop_other:
  "IncrementKeyAccessCount_loop k es = Some es' \<Longrightarrow> k' \<noteq> k \<Longrightarrow>
   stored_count_loop es' k' = stored_count_loop es k'"
  by (induction es arbitrary: es') (auto split: option.splits if_splits)

lemma word_le_inc: "c < max_value c \<Longrightarrow> c \<le> c + 1"
  by (meson interval_class.inc_less_eq_imp_less word_le_less_eq)

lemma unat_max_value: "unat (max_value (c :: 'w::len word)) = 2 ^ LENGTH('w) - 1"
  by (simp add: max_value_def unsigned_minus_1_eq_mask mask_eq_exp_minus_1)

lemma Increment_existing:
  assumes "stored_count m k = Some c"
  shows "\<exists>m'. IncrementKeyAccessCount m k = (True, m')
           \<and> stored_count m' k = Some (if c < max_value c then c + 1 else c)
           \<and> (\<forall>k'. k' \<noteq> k \<longrightarrow> stored_count m' k' = stored_count m k')"
proof -
  from assms obtain es' where
    es': "IncrementKeyAccessCount_loop k (access_count_list m) = Some es'"
    and c': "stored_count_loop es' k = Some (if c < max_value c then c + 1 else c)"
    unfolding stored_count_def using Increment_loop_same by blast
  have "\<forall>k'. k' \<noteq> k \<longrightarrow>
          stored_count_loop es' k' = stored_count_loop (access_count_list m) k'"
    using Increment_loop_other [OF es'] by blast
  with es' c' show ?thesis
    by (simp add: IncrementKeyAccessCount_def stored_count_def)
qed

lemma Increment_new:
  assumes "stored_count m k = None"
  shows "IncrementKeyAccessCount m k =
           (if max_size m \<le> length (access_count_list m) then (False, m)
            else (True, m\<lparr>access_count_list :=
                    \<lparr>keyid = k, access_count = 1\<rparr> # access_count_list m\<rparr>))"
  using assms
  by (simp add: IncrementKeyAccessCount_def stored_count_def Increment_loop_None [symmetric])

text \<open>
  Claim C9. The increment of the count table never wraps a key's counter, whatever the
  width of the counter field. When the counter is the largest value of its type,
  \<open>2 ^ LENGTH('w) - 1\<close>, the increment reports success and the counter is still that
  value; below it, the counter grows by exactly one, with no wrap-around; and across any
  successful increment no key's counter gets smaller.
\<close>

theorem IncrementKeyAccessCount_saturates:
  "(\<forall>c. stored_count m k = Some c \<and> c = max_value c \<longrightarrow>
      unat c = 2 ^ LENGTH('w) - 1
      \<and> fst (IncrementKeyAccessCount m k)
      \<and> stored_count (snd (IncrementKeyAccessCount m k)) k = Some c)
   \<and> (\<forall>c. stored_count m k = Some c \<and> c < max_value c \<longrightarrow>
      fst (IncrementKeyAccessCount m k)
      \<and> stored_count (snd (IncrementKeyAccessCount m k)) k = Some (c + 1)
      \<and> unat (c + 1) = unat c + 1)
   \<and> (\<forall>k' c. fst (IncrementKeyAccessCount m k) \<and> stored_count m k' = Some c \<longrightarrow>
        (\<exists>c'. stored_count (snd (IncrementKeyAccessCount m k)) k' = Some c' \<and> c \<le> c'))"
  for m :: "('w::len) word AccessCountMap"
proof (intro conjI allI impI)
  fix c :: "'w word"
  assume a: "stored_count m k = Some c \<and> c = max_value c"
  then have "\<not> c < max_value c" by simp
  with Increment_existing [of m k c] a
  show "fst (IncrementKeyAccessCount m k)"
    and "stored_count (snd (IncrementKeyAccessCount m k)) k = Some c"
    by auto
  from a unat_max_value [of c] show "unat c = 2 ^ LENGTH('w) - 1" by simp
next
  fix c :: "'w word"
  assume a: "stored_count m k = Some c \<and> c < max_value c"
  with Increment_existing [of m k c]
  show "fst (IncrementKeyAccessCount m k)"
    and "stored_count (snd (IncrementKeyAccessCount m k)) k = Some (c + 1)"
    by auto
  from a have "c \<noteq> - 1" by (auto simp: max_value_def)
  then have "1 + c \<noteq> 0"
    by (metis add.commute add_eq_0_iff)
  then show "unat (c + 1) = unat c + 1"
    using unatSuc [of c] by (simp add: add.commute)
next
  fix k' and c :: "'w word"
  assume a: "fst (IncrementKeyAccessCount m k) \<and> stored_count m k' = Some c"
  show "\<exists>c'. stored_count (snd (IncrementKeyAccessCount m k)) k' = Some c' \<and> c \<le> c'"
  proof (cases "stored_count m k")
    case None
    with a show ?thesis
      by (auto simp: Increment_new stored_count_def split: if_splits)
  next
    case (Some d)
    from Increment_existing [OF Some] a Some show ?thesis
      by (cases "k' = k") (auto simp: word_le_inc)
  qed
qed

theorem IncrementKeyAccessCount_saturates_witness:
  "stored_count count_table_full 7 = Some 0xFFFFFFFFFFFFFFFF
   \<and> (0xFFFFFFFFFFFFFFFF :: 64 word) = max_value 0xFFFFFFFFFFFFFFFF
   \<and> fst (IncrementKeyAccessCount count_table_full 7)
   \<and> stored_count (snd (IncrementKeyAccessCount count_table_full 7)) 7
       = Some 0xFFFFFFFFFFFFFFFF"
proof -
  have h: "stored_count count_table_full 7 = Some 0xFFFFFFFFFFFFFFFF"
    by (simp add: stored_count_def count_table_full_def)
  have m: "(0xFFFFFFFFFFFFFFFF :: 64 word) = max_value 0xFFFFFFFFFFFFFFFF"
    by (simp add: max_value_def)
  from IncrementKeyAccessCount_saturates [of count_table_full 7] h m
  show ?thesis by blast
qed

text \<open>
  The value that \<open>KeyAccessCount\<close> reports is the stored counter converted to 32 bits.
  With a field wider than that, the reported value does wrap where the stored counter
  does not: a 64-bit counter at the largest 32-bit value is incremented to \<open>2 ^ 32\<close>, and
  is reported as 0.
\<close>

lemma KeyAccessCount_wide_counter:
  "KeyAccessCount count_table_wide 7 = Some 0xFFFFFFFF
   \<and> stored_count (snd (IncrementKeyAccessCount count_table_wide 7)) 7 = Some 0x100000000
   \<and> KeyAccessCount (snd (IncrementKeyAccessCount count_table_wide 7)) 7 = Some 0"
  by (simp add: KeyAccessCount_def stored_count_def IncrementKeyAccessCount_def
        count_table_wide_def max_value_def)

subsection \<open>The time table\<close>

lemma Update_loop_absent:
  "LastKeyAccessTime_loop es k = None \<Longrightarrow>
   UpdateKeyAccessTime_loop k now es =
     (if \<forall>e\<in>set es. access_time e \<le> now
      then Some (False, filter (\<lambda>e. \<not> timeout e \<le> now - access_time e) es)
      else None)"
  by (induction es) (auto split: if_splits)

lemma Update_loop_present:
  "LastKeyAccessTime_loop es k = Some t \<Longrightarrow>
   UpdateKeyAccessTime_loop k now es = Some (found, es') \<Longrightarrow>
   found \<and> LastKeyAccessTime_loop es' k = Some now"
  by (induction es arbitrary: es') (auto split: if_splits option.splits)

lemma Update_loop_keeps:
  "UpdateKeyAccessTime_loop k now es = Some (found, es') \<Longrightarrow> e \<in> set es \<Longrightarrow>
   keyid e \<noteq> k \<Longrightarrow> \<not> timeout e \<le> now - access_time e \<Longrightarrow> e \<in> set es'"
  by (induction es arbitrary: es') (auto split: if_splits option.splits)

lemma Update_loop_None:
  "UpdateKeyAccessTime_loop k now es = None \<Longrightarrow> \<exists>e\<in>set es. now < access_time e"
  by (induction es) (auto split: if_splits option.splits)

lemma Update_loop_returns:
  "\<forall>e\<in>set es. access_time e \<le> now \<Longrightarrow> UpdateKeyAccessTime_loop k now es \<noteq> None"
  by (induction es) (auto split: if_splits option.splits)

text \<open>
  Claim C8. The update of the time table. When the key has an entry, the call returns
  true, whatever the table's size, and the entry's time is the current one; the live
  entries of other keys stay. When the key has no entry, exactly the entries with
  \<open>current_time - access_time >= timeout\<close> are removed, every other entry stays in
  place, and the call returns false exactly when the remaining entries still fill the
  table; otherwise the new entry is put in front. The call fails to return only when
  the source's assertion does: some entry's access time is later than the current time.
\<close>

theorem UpdateKeyAccessTime_spec:
  "(case UpdateKeyAccessTime m k now tmo of
      None \<Rightarrow> \<exists>e\<in>set (last_access_list m). now < access_time e
    | Some (ok, m') \<Rightarrow>
        max_size m' = max_size m
        \<and> (if LastKeyAccessTime m k \<noteq> None
           then ok \<and> LastKeyAccessTime m' k = Some now
                \<and> (\<forall>e\<in>set (last_access_list m).
                      keyid e \<noteq> k \<and> \<not> timeout e \<le> now - access_time e
                      \<longrightarrow> e \<in> set (last_access_list m'))
           else (let live = filter (\<lambda>e. \<not> timeout e \<le> now - access_time e)
                              (last_access_list m) in
                 ok = (length live < max_size m)
                 \<and> last_access_list m' =
                     (if ok then \<lparr>keyid = k, access_time = now, timeout = tmo\<rparr> # live
                      else live))))
   \<and> ((\<forall>e\<in>set (last_access_list m). access_time e \<le> now)
        \<longrightarrow> UpdateKeyAccessTime m k now tmo \<noteq> None)"
proof (rule conjI)
  show "(\<forall>e\<in>set (last_access_list m). access_time e \<le> now)
        \<longrightarrow> UpdateKeyAccessTime m k now tmo \<noteq> None"
  proof (intro impI)
    assume a: "\<forall>e\<in>set (last_access_list m). access_time e \<le> now"
    from Update_loop_returns [OF a, of k] show "UpdateKeyAccessTime m k now tmo \<noteq> None"
      by (auto simp: UpdateKeyAccessTime_def split: option.splits)
  qed
next
  show "case UpdateKeyAccessTime m k now tmo of
      None \<Rightarrow> \<exists>e\<in>set (last_access_list m). now < access_time e
    | Some (ok, m') \<Rightarrow>
        max_size m' = max_size m
        \<and> (if LastKeyAccessTime m k \<noteq> None
           then ok \<and> LastKeyAccessTime m' k = Some now
                \<and> (\<forall>e\<in>set (last_access_list m).
                      keyid e \<noteq> k \<and> \<not> timeout e \<le> now - access_time e
                      \<longrightarrow> e \<in> set (last_access_list m'))
           else (let live = filter (\<lambda>e. \<not> timeout e \<le> now - access_time e)
                              (last_access_list m) in
                 ok = (length live < max_size m)
                 \<and> last_access_list m' =
                     (if ok then \<lparr>keyid = k, access_time = now, timeout = tmo\<rparr> # live
                      else live)))"
  proof (cases "UpdateKeyAccessTime_loop k now (last_access_list m)")
    case None
    then have "UpdateKeyAccessTime m k now tmo = None"
      by (simp add: UpdateKeyAccessTime_def)
    with Update_loop_None [OF None] show ?thesis by simp
  next
    case (Some r)
    obtain found es where r: "r = (found, es)" by (cases r)
    show ?thesis
    proof (cases "LastKeyAccessTime_loop (last_access_list m) k")
      case None
      from Update_loop_absent [OF None, of now] Some r
      have "found = False"
        and "es = filter (\<lambda>e. \<not> timeout e \<le> now - access_time e) (last_access_list m)"
        by (auto split: if_splits)
      with Some r None show ?thesis
        by (auto simp: UpdateKeyAccessTime_def LastKeyAccessTime_def Let_def)
    next
      case (Some t)
      from Update_loop_present [OF Some] \<open>UpdateKeyAccessTime_loop k now (last_access_list m) = Some r\<close> r
      have f: "found" and l: "LastKeyAccessTime_loop es k = Some now" by auto
      have "\<forall>e\<in>set (last_access_list m).
              keyid e \<noteq> k \<and> \<not> timeout e \<le> now - access_time e \<longrightarrow> e \<in> set es"
        using Update_loop_keeps \<open>UpdateKeyAccessTime_loop k now (last_access_list m) = Some r\<close> r
        by blast
      with f l Some \<open>UpdateKeyAccessTime_loop k now (last_access_list m) = Some r\<close> r
      show ?thesis
        by (simp add: UpdateKeyAccessTime_def LastKeyAccessTime_def)
    qed
  qed
qed

theorem UpdateKeyAccessTime_spec_witness:
  "LastKeyAccessTime time_table_two 3 = None
   \<and> UpdateKeyAccessTime time_table_two 3 20 5 =
       Some (True, \<lparr>max_size = 2,
                    last_access_list = [\<lparr>keyid = 3, access_time = 20, timeout = 5\<rparr>,
                                        \<lparr>keyid = 2, access_time = 18, timeout = 5\<rparr>]\<rparr>)
   \<and> LastKeyAccessTime time_table_two 2 = Some 18
   \<and> fst (the (UpdateKeyAccessTime time_table_two 2 20 5))
   \<and> LastKeyAccessTime (snd (the (UpdateKeyAccessTime time_table_two 2 20 5))) 2 = Some 20"
  using UpdateKeyAccessTime_spec [of time_table_two 3 20 5]
    UpdateKeyAccessTime_spec [of time_table_two 2 20 5]
  by (simp add: time_table_two_def UpdateKeyAccessTime_def LastKeyAccessTime_def)

section \<open>Purpose authorization\<close>

lemma Contains_iff:
  "Contains s t v = (\<exists>p\<in>set s. tag p = t \<and> enumerated p = v)"
  by (induction s) auto

lemma GetTagValue_find: "GetTagValue s t = List.find (\<lambda>p. tag p = t) s"
  by (induction s) auto

text \<open>
  Claim C2. Purpose authorization. For VERIFY and ENCRYPT it succeeds exactly when the
  policy's algorithm entry (the first one, which \<open>GetTagValue\<close> reads) is RSA or EC, or
  some purpose entry of the policy equals the requested purpose; for SIGN and DECRYPT
  exactly when some purpose entry equals the requested purpose; the failure is
  \<open>KM_ERROR_INCOMPATIBLE_PURPOSE\<close>. Every other purpose value gives
  \<open>KM_ERROR_UNSUPPORTED_PURPOSE\<close>.
\<close>

theorem authorized_purpose_spec:
  "authorized_purpose purpose auth_set =
     (if purpose = KM_PURPOSE_VERIFY \<or> purpose = KM_PURPOSE_ENCRYPT then
        (if (\<exists>p. List.find (\<lambda>p. tag p = KM_TAG_ALGORITHM) auth_set = Some p
                 \<and> (enumerated p = Algorithm KM_ALGORITHM_RSA
                    \<or> enumerated p = Algorithm KM_ALGORITHM_EC))
            \<or> (\<exists>p\<in>set auth_set. tag p = KM_TAG_PURPOSE \<and> enumerated p = Purpose purpose)
         then KM_ERROR_OK else KM_ERROR_INCOMPATIBLE_PURPOSE)
      else if purpose = KM_PURPOSE_SIGN \<or> purpose = KM_PURPOSE_DECRYPT then
        (if \<exists>p\<in>set auth_set. tag p = KM_TAG_PURPOSE \<and> enumerated p = Purpose purpose
         then KM_ERROR_OK else KM_ERROR_INCOMPATIBLE_PURPOSE)
      else KM_ERROR_UNSUPPORTED_PURPOSE)"
  by (cases purpose)
    (auto simp: is_public_key_algorithm_def Contains_iff GetTagValue_find
          split: option.splits)

theorem authorized_purpose_spec_witness:
  "authorized_purpose KM_PURPOSE_VERIFY
     [param_enum KM_TAG_ALGORITHM (Algorithm KM_ALGORITHM_RSA)] = KM_ERROR_OK
   \<and> authorized_purpose KM_PURPOSE_SIGN
       [param_enum KM_TAG_ALGORITHM (Algorithm KM_ALGORITHM_RSA)]
       = KM_ERROR_INCOMPATIBLE_PURPOSE
   \<and> authorized_purpose KM_PURPOSE_DECRYPT
       [param_enum KM_TAG_PURPOSE (Purpose KM_PURPOSE_DECRYPT)] = KM_ERROR_OK
   \<and> authorized_purpose (KM_PURPOSE_OTHER 4)
       [param_enum KM_TAG_PURPOSE (Purpose (KM_PURPOSE_OTHER 4))]
       = KM_ERROR_UNSUPPORTED_PURPOSE"
  using authorized_purpose_spec
          [of KM_PURPOSE_VERIFY "[param_enum KM_TAG_ALGORITHM (Algorithm KM_ALGORITHM_RSA)]"]
        authorized_purpose_spec
          [of KM_PURPOSE_SIGN "[param_enum KM_TAG_ALGORITHM (Algorithm KM_ALGORITHM_RSA)]"]
        authorized_purpose_spec
          [of KM_PURPOSE_DECRYPT "[param_enum KM_TAG_PURPOSE (Purpose KM_PURPOSE_DECRYPT)]"]
        authorized_purpose_spec
          [of "KM_PURPOSE_OTHER 4" "[param_enum KM_TAG_PURPOSE (Purpose (KM_PURPOSE_OTHER 4))]"]
  by (simp add: param_enum_def)

section \<open>The token validator\<close>

lemma memcpy_token_bytes:
  "memcpy_token (token_bytes mac) =
     \<lparr>version = 0, challenge = 5, user_id = 42, authenticator_id = 9,
      authenticator_type = 0x1000000, timestamp = 90, hmac = mac # replicate 31 0\<rparr>"
  by (simp add: memcpy_token_def token_bytes_def field_def)

lemma length_token_bytes: "length (token_bytes mac) = sizeof_hw_auth_token_t"
  by (simp add: token_bytes_def sizeof_hw_auth_token_t_def)

lemma ntoh_example: "ntoh 0x1000000 = 1"
  by (simp add: ntoh_def)

text \<open>
  Claim C3. A token that fails the platform's authenticity check is never accepted:
  whatever the key's identity, the indices, the operation handle and the other fields of
  the token, \<open>AuthTokenMatches\<close> does not return true, and it returns false whenever its
  two initial assertions on the indices hold.
\<close>

theorem AuthTokenMatches_bad_signature:
  assumes "GetTagValue operation_params KM_TAG_AUTH_TOKEN = Some p"
    and "\<not> ValidateTokenSignature env (memcpy_token (blob p))"
  shows "AuthTokenMatches env auth_set operation_params user_secure_id type_ix
           timeout_ix op_handle is_begin_operation \<noteq> Some True
         \<and> (type_ix < int (length auth_set)
              \<and> timeout_ix < int (length auth_set)
            \<longrightarrow> AuthTokenMatches env auth_set operation_params user_secure_id
                  type_ix timeout_ix op_handle is_begin_operation
                = Some False)"
  using assms by (simp add: AuthTokenMatches_def Let_def)

theorem AuthTokenMatches_bad_signature_witness:
  "GetTagValue [param_blob KM_TAG_AUTH_TOKEN (token_bytes 2)] KM_TAG_AUTH_TOKEN
     = Some (param_blob KM_TAG_AUTH_TOKEN (token_bytes 2))
   \<and> \<not> ValidateTokenSignature test_platform (memcpy_token (token_bytes 2))
   \<and> AuthTokenMatches test_platform [param_int KM_TAG_USER_AUTH_TYPE 1]
        [param_blob KM_TAG_AUTH_TOKEN (token_bytes 2)] 42 0 (- 1) 5 False = Some False"
proof -
  have g: "GetTagValue [param_blob KM_TAG_AUTH_TOKEN (token_bytes 2)] KM_TAG_AUTH_TOKEN
             = Some (param_blob KM_TAG_AUTH_TOKEN (token_bytes 2))"
    by (simp add: param_blob_def)
  have v: "\<not> ValidateTokenSignature test_platform
               (memcpy_token (blob (param_blob KM_TAG_AUTH_TOKEN (token_bytes 2))))"
    by (simp add: param_blob_def memcpy_token_bytes test_platform_def)
  from AuthTokenMatches_bad_signature
         [OF g v, of "[param_int KM_TAG_USER_AUTH_TYPE 1]" 42 0 "- 1" 5 False] g v
  show ?thesis by (simp add: param_blob_def)
qed


text \<open>
  Whatever the blob, the accesses are the length alone, or the length and then as many
  bytes as the blob holds: no byte is read before the length, and none out of bounds.
\<close>

lemma AuthTokenMatches_accesses_in_bounds:
  assumes "GetTagValue operation_params KM_TAG_AUTH_TOKEN = Some p"
  shows "snd (AuthTokenMatches_accesses env auth_set operation_params user_secure_id
                type_ix timeout_ix op_handle is_begin_operation)
           \<in> {[], [Read_data_length], [Read_data_length, Read_data (length (blob p))]}"
  using assms by (simp add: AuthTokenMatches_accesses_def Let_def)



section \<open>The policy evaluator\<close>

subsection \<open>State after an error\<close>

lemma Increment_False: "IncrementKeyAccessCount m k = (False, m') \<Longrightarrow> m' = m"
  by (auto simp: IncrementKeyAccessCount_def split: option.splits if_splits)

text \<open>
  The source keeps the time table within its capacity: an entry is added only below
  \<open>max_size_\<close>. Within capacity, an update of the time table that fails has removed
  nothing, since the table is full only of entries that have not expired.
\<close>

lemma Update_loop_length:
  "UpdateKeyAccessTime_loop k now es = Some (found, es') \<Longrightarrow>
   length es' \<le> length es \<and> (\<not> found \<and> length es \<le> length es' \<longrightarrow> es' = es)"
proof (induction es arbitrary: es')
  case Nil
  then show ?case by simp
next
  case (Cons e es)
  show ?case
  proof (cases "keyid e = k")
    case True
    with Cons.prems show ?thesis by auto
  next
    case False
    show ?thesis
    proof (cases "timeout e \<le> now - access_time e")
      case True
      with False Cons.prems have "UpdateKeyAccessTime_loop k now es = Some (found, es')"
        by (simp split: if_splits)
      from Cons.IH [OF this] show ?thesis by simp
    next
      case live: False
      with False Cons.prems obtain es'' where
        l: "UpdateKeyAccessTime_loop k now es = Some (found, es'')" and "es' = e # es''"
        by (auto split: if_splits option.splits)
      with Cons.IH [OF l] show ?thesis by simp
    qed
  qed
qed

lemma UpdateKeyAccessTime_capacity:
  assumes "length (last_access_list m) \<le> max_size m"
    and "UpdateKeyAccessTime m k now tmo = Some (ok, m')"
  shows "length (last_access_list m') \<le> max_size m'"
proof -
  from assms(2) obtain found es where
    l: "UpdateKeyAccessTime_loop k now (last_access_list m) = Some (found, es)"
    by (auto simp: UpdateKeyAccessTime_def split: option.splits)
  from Update_loop_length [OF l] assms(1) have "length es \<le> max_size m" by simp
  with l assms(2) show ?thesis
    by (auto simp: UpdateKeyAccessTime_def split: if_splits)
qed

lemma UpdateKeyAccessTime_False_unchanged:
  assumes "length (last_access_list m) \<le> max_size m"
    and "UpdateKeyAccessTime m k now tmo = Some (False, m')"
  shows "m' = m"
proof -
  from assms(2) obtain found es where
    l: "UpdateKeyAccessTime_loop k now (last_access_list m) = Some (found, es)"
    by (auto simp: UpdateKeyAccessTime_def split: option.splits)
  with assms(2) have nf: "\<not> found" and full: "max_size m \<le> length es"
    and m': "m' = m\<lparr>last_access_list := es\<rparr>"
    by (auto simp: UpdateKeyAccessTime_def split: if_splits)
  from full assms(1) have "length (last_access_list m) \<le> length es" by simp
  with Update_loop_length [OF l] nf have "es = last_access_list m" by simp
  with m' show ?thesis by simp
qed

text \<open>
  A call of \<open>AuthorizeOperation\<close> that returns an error leaves the count table as it was,
  and the time table too unless the error is \<open>KM_ERROR_TOO_MANY_OPERATIONS\<close>.
\<close>

lemma AuthorizeOperation_error_state:
  assumes "AuthorizeOperation env st purpose k auth_set operation_params op_handle
             is_begin_operation = Some (e, st')"
    and "e \<noteq> KM_ERROR_OK"
  shows "access_count_map st' = access_count_map st
         \<and> (e \<noteq> KM_ERROR_TOO_MANY_OPERATIONS \<longrightarrow> st' = st)"
  using assms
  by (auto simp: AuthorizeOperation_def Let_def
           split: if_splits option.splits flow.splits prod.splits
           dest: Increment_False)

text \<open>
  With the time table within capacity, an error return leaves both tables as they were,
  but for one: the return of \<open>KM_ERROR_TOO_MANY_OPERATIONS\<close> from a full count table,
  which comes after the update of the time table has been applied.
\<close>

lemma AuthorizeOperation_error_state_strong:
  assumes cap: "length (last_access_list (access_time_map st)) \<le> max_size (access_time_map st)"
    and call: "AuthorizeOperation env st purpose k auth_set operation_params op_handle
             is_begin_operation = Some (e, st')"
    and err: "e \<noteq> KM_ERROR_OK"
  shows "st' = st
         \<or> (e = KM_ERROR_TOO_MANY_OPERATIONS
            \<and> IncrementKeyAccessCount (access_count_map st) k = (False, access_count_map st)
            \<and> st' = st\<lparr>access_time_map := access_time_map st'\<rparr>
            \<and> (\<exists>tmo. UpdateKeyAccessTime (access_time_map st) k (get_current_time env) tmo
                        = Some (True, access_time_map st')))"
proof (cases "e = KM_ERROR_TOO_MANY_OPERATIONS")
  case False
  with AuthorizeOperation_error_state [OF call err] show ?thesis by simp
next
  case True
  from call True obtain v where
    v: "check_params env st purpose k auth_set operation_params op_handle
          is_begin_operation (find_key_entries auth_set) = Continue v
        \<or> st' = st"
    by (auto simp: AuthorizeOperation_def Let_def split: if_splits flow.splits)
  show ?thesis
  proof (cases "st' = st")
    case True
    then show ?thesis by simp
  next
    case ne: False
    with v have scan: "check_params env st purpose k auth_set operation_params op_handle
          is_begin_operation (find_key_entries auth_set) = Continue v"
      by simp
    obtain time_ok tm where
      u: "(if min_ops_timeout v \<noteq> UINT32_MAX
           then UpdateKeyAccessTime (access_time_map st) k (get_current_time env)
                  (min_ops_timeout v)
           else Some (True, access_time_map st)) = Some (time_ok, tm)"
      using call scan ne
      by (auto simp: AuthorizeOperation_def Let_def split: if_splits option.splits)
    have "time_ok"
    proof (rule ccontr)
      assume "\<not> time_ok"
      with u have "UpdateKeyAccessTime (access_time_map st) k (get_current_time env)
                     (min_ops_timeout v) = Some (False, tm)"
        by (auto split: if_splits)
      from UpdateKeyAccessTime_False_unchanged [OF cap this] have "tm = access_time_map st" .
      with \<open>\<not> time_ok\<close> u call scan have "st' = st"
        by (auto simp: AuthorizeOperation_def Let_def split: if_splits)
      with ne show False by simp
    qed
    with u call scan True ne
    have inc: "update_access_count v"
      and f: "fst (IncrementKeyAccessCount (access_count_map st) k) = False"
      and st': "st' = st\<lparr>access_time_map := tm,
                     access_count_map := snd (IncrementKeyAccessCount (access_count_map st) k)\<rparr>"
      by (auto simp: AuthorizeOperation_def Let_def split: if_splits prod.splits)
    from f have i: "IncrementKeyAccessCount (access_count_map st) k
                      = (False, access_count_map st)"
      using Increment_False [of "access_count_map st" k]
      by (cases "IncrementKeyAccessCount (access_count_map st) k") auto
    with st' have eq: "st' = st\<lparr>access_time_map := tm\<rparr>" by simp
    with ne have "tm \<noteq> access_time_map st" by auto
    with u \<open>time_ok\<close> have "UpdateKeyAccessTime (access_time_map st) k (get_current_time env)
                     (min_ops_timeout v) = Some (True, tm)"
      by (auto split: if_splits)
    with eq i True show ?thesis by auto
  qed
qed

lemma AuthorizeOperation_capacity:
  assumes "length (last_access_list (access_time_map st)) \<le> max_size (access_time_map st)"
    and "AuthorizeOperation env st purpose k auth_set operation_params op_handle
             is_begin_operation = Some (e, st')"
  shows "length (last_access_list (access_time_map st'))
           \<le> max_size (access_time_map st')"
  using assms UpdateKeyAccessTime_capacity [OF assms(1)]
  by (auto simp: AuthorizeOperation_def Let_def
           split: if_splits option.splits flow.splits prod.splits)

lemma limited_key_count_full:
  "AuthorizeOperation test_platform count_full_state KM_PURPOSE_SIGN 1 limited_key [] 0 True
     = Some (KM_ERROR_TOO_MANY_OPERATIONS, refused_state)"
  by (simp add: AuthorizeOperation_def find_key_entries_def check_params_def check_param_def
        limited_key_def count_full_state_def refused_state_def param_enum_def param_int_def
        test_platform_def
        MinTimeBetweenOpsPassed_def MaxUsesPerBootNotExceeded_def LastKeyAccessTime_def
        KeyAccessCount_def UpdateKeyAccessTime_def IncrementKeyAccessCount_def
        find_tag_def UINT32_MAX_def max_value_def)

lemma limited_key_refused_again:
  "AuthorizeOperation (test_platform\<lparr>get_current_time := 101\<rparr>) refused_state
       KM_PURPOSE_SIGN 1 limited_key [] 0 True
     = Some (KM_ERROR_KEY_RATE_LIMIT_EXCEEDED, refused_state)"
  by (simp add: AuthorizeOperation_def find_key_entries_def check_params_def check_param_def
        limited_key_def refused_state_def param_enum_def param_int_def test_platform_def
        MinTimeBetweenOpsPassed_def MaxUsesPerBootNotExceeded_def LastKeyAccessTime_def
        KeyAccessCount_def find_tag_def UINT32_MAX_def)

lemma limited_key_time_full:
  "AuthorizeOperation test_platform time_full_state KM_PURPOSE_SIGN 1 limited_key [] 0 True
     = Some (KM_ERROR_TOO_MANY_OPERATIONS, time_full_state)"
  by (simp add: AuthorizeOperation_def find_key_entries_def check_params_def check_param_def
        limited_key_def time_full_state_def param_enum_def param_int_def test_platform_def
        MinTimeBetweenOpsPassed_def MaxUsesPerBootNotExceeded_def LastKeyAccessTime_def
        KeyAccessCount_def UpdateKeyAccessTime_def IncrementKeyAccessCount_def
        find_tag_def UINT32_MAX_def max_value_def)

text \<open>
  Claim C1 at a full count table. The call for \<open>limited_key\<close> in \<open>count_full_state\<close>
  passes every check of the policy, records the key's access in the time table and then
  returns \<open>KM_ERROR_TOO_MANY_OPERATIONS\<close> from the full count table: the time table has
  changed with an error return. The refused operation counts against the key's minimum
  interval, so the same call one second later returns
  \<open>KM_ERROR_KEY_RATE_LIMIT_EXCEEDED\<close>. The return of the same error from a full time
  table leaves both tables as they were.
\<close>

theorem AuthorizeOperation_error_mutates_time_table:
  "AuthorizeOperation test_platform count_full_state KM_PURPOSE_SIGN 1 limited_key [] 0 True
     = Some (KM_ERROR_TOO_MANY_OPERATIONS, refused_state)
   \<and> access_time_map refused_state \<noteq> access_time_map count_full_state
   \<and> LastKeyAccessTime (access_time_map count_full_state) 1 = None
   \<and> LastKeyAccessTime (access_time_map refused_state) 1 = Some 100
   \<and> AuthorizeOperation (test_platform\<lparr>get_current_time := 101\<rparr>) refused_state
       KM_PURPOSE_SIGN 1 limited_key [] 0 True
     = Some (KM_ERROR_KEY_RATE_LIMIT_EXCEEDED, refused_state)
   \<and> AuthorizeOperation test_platform time_full_state KM_PURPOSE_SIGN 1 limited_key [] 0 True
     = Some (KM_ERROR_TOO_MANY_OPERATIONS, time_full_state)"
  using limited_key_count_full limited_key_refused_again limited_key_time_full
  by (simp add: LastKeyAccessTime_def count_full_state_def refused_state_def)

subsection \<open>The positions found by the first loop\<close>

lemma find_from_absent: "(find_from pos s t = - 1) = (t \<notin> tag ` set s)"
  by (induction s arbitrary: pos) auto

lemma find_tag_absent: "(find_tag s t = - 1) = (t \<notin> tag ` set s)"
  by (simp add: find_tag_def find_from_absent)

lemma GetTagValue_absent: "(GetTagValue s t = None) = (t \<notin> tag ` set s)"
  by (induction s) auto

lemma find_entries_Cons:
  "find_entries pos (p # ps) ix =
     find_entries (Suc pos) ps
       (if tag p = KM_TAG_AUTH_TIMEOUT then ix\<lparr>auth_timeout_index := int pos\<rparr>
        else if tag p = KM_TAG_USER_AUTH_TYPE then ix\<lparr>auth_type_index := int pos\<rparr>
        else if tag p = KM_TAG_NO_AUTH_REQUIRED then ix\<lparr>no_auth_required_index := int pos\<rparr>
        else ix)"
  by (cases "tag p") simp_all

lemma find_entries_timeout_absent:
  "KM_TAG_AUTH_TIMEOUT \<notin> tag ` set ps \<Longrightarrow>
     auth_timeout_index (find_entries pos ps ix) = auth_timeout_index ix"
  by (induction ps arbitrary: pos ix)
    (auto simp: find_entries_Cons simp del: find_entries.simps(2))

lemma find_entries_type_absent:
  "KM_TAG_USER_AUTH_TYPE \<notin> tag ` set ps \<Longrightarrow>
     auth_type_index (find_entries pos ps ix) = auth_type_index ix"
  by (induction ps arbitrary: pos ix)
    (auto simp: find_entries_Cons simp del: find_entries.simps(2))

lemma find_entries_no_auth_absent:
  "KM_TAG_NO_AUTH_REQUIRED \<notin> tag ` set ps \<Longrightarrow>
     no_auth_required_index (find_entries pos ps ix) = no_auth_required_index ix"
  by (induction ps arbitrary: pos ix)
    (auto simp: find_entries_Cons simp del: find_entries.simps(2))

lemmas find_entries_absent =
  find_entries_timeout_absent find_entries_type_absent find_entries_no_auth_absent

lemma find_entries_timeout_present:
  "KM_TAG_AUTH_TIMEOUT \<in> tag ` set ps \<Longrightarrow>
   \<exists>i<length ps. auth_timeout_index (find_entries pos ps ix) = int (pos + i)
      \<and> tag (ps ! i) = KM_TAG_AUTH_TIMEOUT"
proof (induction ps arbitrary: pos ix)
  case Nil
  then show ?case by simp
next
  case (Cons p ps)
  show ?case
  proof (cases "KM_TAG_AUTH_TIMEOUT \<in> tag ` set ps")
    case True
    from Cons.IH [OF True] obtain i where "i < length ps"
      and "auth_timeout_index (find_entries pos (p # ps) ix) = int (Suc pos + i)"
      and "tag (ps ! i) = KM_TAG_AUTH_TIMEOUT"
      unfolding find_entries_Cons by blast
    then show ?thesis by (intro exI [of _ "Suc i"]) simp
  next
    case False
    with Cons.prems have "tag p = KM_TAG_AUTH_TIMEOUT" by auto
    with False show ?thesis
      by (intro exI [of _ 0]) (simp add: find_entries_Cons find_entries_absent del: find_entries.simps(2))
  qed
qed

lemma find_entries_type_present:
  "KM_TAG_USER_AUTH_TYPE \<in> tag ` set ps \<Longrightarrow>
   \<exists>i<length ps. auth_type_index (find_entries pos ps ix) = int (pos + i)
      \<and> tag (ps ! i) = KM_TAG_USER_AUTH_TYPE"
proof (induction ps arbitrary: pos ix)
  case Nil
  then show ?case by simp
next
  case (Cons p ps)
  show ?case
  proof (cases "KM_TAG_USER_AUTH_TYPE \<in> tag ` set ps")
    case True
    from Cons.IH [OF True] obtain i where "i < length ps"
      and "auth_type_index (find_entries pos (p # ps) ix) = int (Suc pos + i)"
      and "tag (ps ! i) = KM_TAG_USER_AUTH_TYPE"
      unfolding find_entries_Cons by blast
    then show ?thesis by (intro exI [of _ "Suc i"]) simp
  next
    case False
    with Cons.prems have "tag p = KM_TAG_USER_AUTH_TYPE" by auto
    with False show ?thesis
      by (intro exI [of _ 0]) (simp add: find_entries_Cons find_entries_absent del: find_entries.simps(2))
  qed
qed

lemma find_entries_no_auth_present:
  "KM_TAG_NO_AUTH_REQUIRED \<in> tag ` set ps \<Longrightarrow>
   \<exists>i<length ps. no_auth_required_index (find_entries pos ps ix) = int (pos + i)
      \<and> tag (ps ! i) = KM_TAG_NO_AUTH_REQUIRED"
proof (induction ps arbitrary: pos ix)
  case Nil
  then show ?case by simp
next
  case (Cons p ps)
  show ?case
  proof (cases "KM_TAG_NO_AUTH_REQUIRED \<in> tag ` set ps")
    case True
    from Cons.IH [OF True] obtain i where "i < length ps"
      and "no_auth_required_index (find_entries pos (p # ps) ix) = int (Suc pos + i)"
      and "tag (ps ! i) = KM_TAG_NO_AUTH_REQUIRED"
      unfolding find_entries_Cons by blast
    then show ?thesis by (intro exI [of _ "Suc i"]) simp
  next
    case False
    with Cons.prems have "tag p = KM_TAG_NO_AUTH_REQUIRED" by auto
    with False show ?thesis
      by (intro exI [of _ 0]) (simp add: find_entries_Cons find_entries_absent del: find_entries.simps(2))
  qed
qed

lemma key_timeout_present:
  "KM_TAG_AUTH_TIMEOUT \<in> tag ` set auth_set \<Longrightarrow>
   \<exists>i<length auth_set. auth_timeout_index (find_key_entries auth_set) = int i
      \<and> tag (auth_set ! i) = KM_TAG_AUTH_TIMEOUT"
  unfolding find_key_entries_def
  using find_entries_timeout_present [of auth_set 0
          "\<lparr>auth_timeout_index = - 1, auth_type_index = - 1, no_auth_required_index = - 1\<rparr>"]
  by simp

lemma timeout_index_valid:
  "auth_timeout_index (find_key_entries auth_set) < int (length auth_set)
   \<and> (auth_timeout_index (find_key_entries auth_set) \<noteq> - 1 \<longrightarrow>
        0 \<le> auth_timeout_index (find_key_entries auth_set)
        \<and> tag (auth_set ! nat (auth_timeout_index (find_key_entries auth_set))) = KM_TAG_AUTH_TIMEOUT)"
proof (cases "KM_TAG_AUTH_TIMEOUT \<in> tag ` set auth_set")
  case True
  from key_timeout_present [OF True] obtain i where "i < length auth_set"
    and "auth_timeout_index (find_key_entries auth_set) = int i"
    and "tag (auth_set ! i) = KM_TAG_AUTH_TIMEOUT"
    by blast
  then show ?thesis by simp
next
  case False
  then show ?thesis by (simp add: find_key_entries_def find_entries_absent)
qed

lemma timeout_index_absent:
  "(auth_timeout_index (find_key_entries auth_set) = - 1) = (KM_TAG_AUTH_TIMEOUT \<notin> tag ` set auth_set)"
proof (cases "KM_TAG_AUTH_TIMEOUT \<in> tag ` set auth_set")
  case True
  from key_timeout_present [OF True] obtain i where
    "auth_timeout_index (find_key_entries auth_set) = int i"
    by blast
  with True show ?thesis by simp
next
  case False
  then show ?thesis by (simp add: find_key_entries_def find_entries_absent)
qed

lemma key_type_present:
  "KM_TAG_USER_AUTH_TYPE \<in> tag ` set auth_set \<Longrightarrow>
   \<exists>i<length auth_set. auth_type_index (find_key_entries auth_set) = int i
      \<and> tag (auth_set ! i) = KM_TAG_USER_AUTH_TYPE"
  unfolding find_key_entries_def
  using find_entries_type_present [of auth_set 0
          "\<lparr>auth_timeout_index = - 1, auth_type_index = - 1, no_auth_required_index = - 1\<rparr>"]
  by simp

lemma type_index_valid:
  "auth_type_index (find_key_entries auth_set) < int (length auth_set)
   \<and> (auth_type_index (find_key_entries auth_set) \<noteq> - 1 \<longrightarrow>
        0 \<le> auth_type_index (find_key_entries auth_set)
        \<and> tag (auth_set ! nat (auth_type_index (find_key_entries auth_set))) = KM_TAG_USER_AUTH_TYPE)"
proof (cases "KM_TAG_USER_AUTH_TYPE \<in> tag ` set auth_set")
  case True
  from key_type_present [OF True] obtain i where "i < length auth_set"
    and "auth_type_index (find_key_entries auth_set) = int i"
    and "tag (auth_set ! i) = KM_TAG_USER_AUTH_TYPE"
    by blast
  then show ?thesis by simp
next
  case False
  then show ?thesis by (simp add: find_key_entries_def find_entries_absent)
qed

lemma type_index_absent:
  "(auth_type_index (find_key_entries auth_set) = - 1) = (KM_TAG_USER_AUTH_TYPE \<notin> tag ` set auth_set)"
proof (cases "KM_TAG_USER_AUTH_TYPE \<in> tag ` set auth_set")
  case True
  from key_type_present [OF True] obtain i where
    "auth_type_index (find_key_entries auth_set) = int i"
    by blast
  with True show ?thesis by simp
next
  case False
  then show ?thesis by (simp add: find_key_entries_def find_entries_absent)
qed

lemma key_no_auth_present:
  "KM_TAG_NO_AUTH_REQUIRED \<in> tag ` set auth_set \<Longrightarrow>
   \<exists>i<length auth_set. no_auth_required_index (find_key_entries auth_set) = int i
      \<and> tag (auth_set ! i) = KM_TAG_NO_AUTH_REQUIRED"
  unfolding find_key_entries_def
  using find_entries_no_auth_present [of auth_set 0
          "\<lparr>auth_timeout_index = - 1, auth_type_index = - 1, no_auth_required_index = - 1\<rparr>"]
  by simp

lemma no_auth_index_valid:
  "no_auth_required_index (find_key_entries auth_set) < int (length auth_set)
   \<and> (no_auth_required_index (find_key_entries auth_set) \<noteq> - 1 \<longrightarrow>
        0 \<le> no_auth_required_index (find_key_entries auth_set)
        \<and> tag (auth_set ! nat (no_auth_required_index (find_key_entries auth_set))) = KM_TAG_NO_AUTH_REQUIRED)"
proof (cases "KM_TAG_NO_AUTH_REQUIRED \<in> tag ` set auth_set")
  case True
  from key_no_auth_present [OF True] obtain i where "i < length auth_set"
    and "no_auth_required_index (find_key_entries auth_set) = int i"
    and "tag (auth_set ! i) = KM_TAG_NO_AUTH_REQUIRED"
    by blast
  then show ?thesis by simp
next
  case False
  then show ?thesis by (simp add: find_key_entries_def find_entries_absent)
qed

lemma no_auth_index_absent:
  "(no_auth_required_index (find_key_entries auth_set) = - 1) = (KM_TAG_NO_AUTH_REQUIRED \<notin> tag ` set auth_set)"
proof (cases "KM_TAG_NO_AUTH_REQUIRED \<in> tag ` set auth_set")
  case True
  from key_no_auth_present [OF True] obtain i where
    "no_auth_required_index (find_key_entries auth_set) = int i"
    by blast
  with True show ?thesis by simp
next
  case False
  then show ?thesis by (simp add: find_key_entries_def find_entries_absent)
qed

text \<open>With the positions of the first loop, no assertion of the token validator fails.\<close>

lemma AuthTokenMatches_returns_gen:
  assumes "ti < int (length auth_set)" and "tmi < int (length auth_set)"
    and "ti \<noteq> - 1 \<longrightarrow> 0 \<le> ti \<and> tag (auth_set ! nat ti) = KM_TAG_USER_AUTH_TYPE"
    and "tmi \<noteq> - 1 \<longrightarrow> 0 \<le> tmi \<and> tag (auth_set ! nat tmi) = KM_TAG_AUTH_TIMEOUT"
  shows "AuthTokenMatches env auth_set operation_params user_secure_id ti tmi op_handle
           is_begin_operation \<noteq> None"
proof -
  have ti: "ti < 0 \<or> tag (auth_set ! nat ti) = KM_TAG_USER_AUTH_TYPE"
    using assms(3) by linarith
  have tmi: "tmi = - 1 \<or> (\<not> tmi < 0 \<and> tag (auth_set ! nat tmi) = KM_TAG_AUTH_TIMEOUT)"
    using assms(4) by linarith
  from ti tmi show ?thesis
  proof (elim disjE conjE)
    assume "ti < 0" "tmi = - 1"
    with assms(1,2) show ?thesis
      by (simp add: AuthTokenMatches_def Let_def split: option.splits del: not_None_eq)
  next
    assume "ti < 0" "\<not> tmi < 0" "tag (auth_set ! nat tmi) = KM_TAG_AUTH_TIMEOUT"
    with assms(1,2) show ?thesis
      by (simp add: AuthTokenMatches_def Let_def split: option.splits del: not_None_eq)
  next
    assume "tag (auth_set ! nat ti) = KM_TAG_USER_AUTH_TYPE" "tmi = - 1"
    with assms(1,2) show ?thesis
      by (simp add: AuthTokenMatches_def Let_def split: option.splits del: not_None_eq)
  next
    assume "tag (auth_set ! nat ti) = KM_TAG_USER_AUTH_TYPE" "\<not> tmi < 0"
      "tag (auth_set ! nat tmi) = KM_TAG_AUTH_TIMEOUT"
    with assms(1,2) show ?thesis
      by (simp add: AuthTokenMatches_def Let_def split: option.splits del: not_None_eq)
  qed
qed

lemma AuthTokenMatches_returns:
  "AuthTokenMatches env auth_set operation_params user_secure_id
     (auth_type_index (find_key_entries auth_set))
     (auth_timeout_index (find_key_entries auth_set)) op_handle is_begin_operation \<noteq> None"
  using type_index_valid [of auth_set] timeout_index_valid [of auth_set]
  by (intro AuthTokenMatches_returns_gen) blast+

lemma AuthTokenMatches_no_token:
  "KM_TAG_AUTH_TOKEN \<notin> tag ` set operation_params \<Longrightarrow>
   AuthTokenMatches env auth_set operation_params user_secure_id ti tmi op_handle
     is_begin_operation \<noteq> Some True"
  by (simp add: AuthTokenMatches_def GetTagValue_absent [symmetric])

lemma AuthTokenMatches_no_auth_type:
  assumes "KM_TAG_USER_AUTH_TYPE \<notin> tag ` set auth_set"
  shows "AuthTokenMatches env auth_set operation_params user_secure_id ti tmi op_handle
           is_begin_operation \<noteq> Some True"
proof (cases "0 \<le> ti \<and> ti < int (length auth_set)")
  case True
  then have "nat ti < length auth_set" by linarith
  then have "auth_set ! nat ti \<in> set auth_set" by (rule nth_mem)
  with assms have "tag (auth_set ! nat ti) \<noteq> KM_TAG_USER_AUTH_TYPE" by force
  then show ?thesis
    by (simp add: AuthTokenMatches_def Let_def split: option.splits)
next
  case False
  then have "ti < 0 \<or> \<not> ti < int (length auth_set)" by linarith
  then show ?thesis
  proof
    assume "ti < 0"
    then show ?thesis
      by (simp add: AuthTokenMatches_def Let_def split: option.splits)
  next
    assume "\<not> ti < int (length auth_set)"
    then show ?thesis
      by (simp add: AuthTokenMatches_def)
  qed
qed

subsection \<open>What the second loop does to the authentication flags\<close>

lemma check_param_USER_SECURE_ID:
  "tag param = KM_TAG_USER_SECURE_ID \<Longrightarrow>
   check_param env st purpose k auth_set operation_params op_handle b ix param v =
     (if no_auth_required_index ix \<noteq> - 1 then Return KM_ERROR_INVALID_KEY_BLOB
      else if \<not> can_skip_authentication b (auth_timeout_index ix = - 1)
              \<or> find_tag operation_params KM_TAG_AUTH_TOKEN \<noteq> - 1
      then (case AuthTokenMatches env auth_set operation_params (long_integer param)
                   (auth_type_index ix) (auth_timeout_index ix) op_handle b of
              None \<Rightarrow> Abort
            | Some True \<Rightarrow>
                Continue (v\<lparr>authentication_required := True, auth_token_matched := True\<rparr>)
            | Some False \<Rightarrow> Continue (v\<lparr>authentication_required := True\<rparr>))
      else Continue v)"
  by (simp add: check_param_def)

lemma check_param_other:
  "tag param \<noteq> KM_TAG_USER_SECURE_ID \<Longrightarrow>
   check_param env st purpose k auth_set operation_params op_handle b ix param v
     = Continue v' \<Longrightarrow>
   authentication_required v' = authentication_required v
   \<and> auth_token_matched v' = auth_token_matched v"
  by (cases "tag param") (auto simp: check_param_def split: if_splits)

lemma check_param_other_returns:
  "tag param \<noteq> KM_TAG_USER_SECURE_ID \<Longrightarrow>
   check_param env st purpose k auth_set operation_params op_handle b ix param v \<noteq> Abort"
  by (cases "tag param") (auto simp: check_param_def split: if_splits)

lemma check_param_error:
  "check_param env st purpose k auth_set operation_params op_handle b ix param v
     \<noteq> Return KM_ERROR_KEY_USER_NOT_AUTHENTICATED"
  by (cases "tag param")
    (auto simp: check_param_def split: if_splits option.splits bool.splits)

lemma check_param_failure:
  "check_param env st purpose k auth_set operation_params op_handle b ix param v
     \<noteq> Return KM_ERROR_OK"
  by (cases "tag param")
    (auto simp: check_param_def split: if_splits option.splits bool.splits)

lemma for_each_failure:
  "for_each (check_param env st purpose k auth_set operation_params op_handle b ix) ps v
     \<noteq> Return KM_ERROR_OK"
  by (induction ps arbitrary: v) (auto simp: check_param_failure split: flow.splits)

lemma for_each_error:
  "for_each (check_param env st purpose k auth_set operation_params op_handle b ix) ps v
     \<noteq> Return KM_ERROR_KEY_USER_NOT_AUTHENTICATED"
  by (induction ps arbitrary: v) (auto simp: check_param_error split: flow.splits)

lemma for_each_deferred:
  assumes "b" and "auth_timeout_index ix = - 1"
    and "find_tag operation_params KM_TAG_AUTH_TOKEN = - 1"
  shows "for_each (check_param env st purpose k auth_set operation_params op_handle b ix) ps v
           = Continue v' \<Longrightarrow>
         authentication_required v' = authentication_required v"
proof (induction ps arbitrary: v)
  case Nil
  then show ?case by simp
next
  case (Cons p ps)
  from Cons.prems obtain v1 where
    step: "check_param env st purpose k auth_set operation_params op_handle b ix p v
             = Continue v1"
    and rest: "for_each (check_param env st purpose k auth_set operation_params op_handle b ix)
                 ps v1 = Continue v'"
    by (auto split: flow.splits)
  have "authentication_required v1 = authentication_required v"
  proof (cases "tag p = KM_TAG_USER_SECURE_ID")
    case True
    with step assms show ?thesis
      by (auto simp: check_param_USER_SECURE_ID can_skip_authentication_def split: if_splits)
  next
    case False
    from check_param_other [OF False step] show ?thesis by simp
  qed
  with Cons.IH [OF rest] show ?case by simp
qed

lemma for_each_required:
  assumes "\<not> (b \<and> auth_timeout_index ix = - 1)
           \<or> find_tag operation_params KM_TAG_AUTH_TOKEN \<noteq> - 1"
  shows "for_each (check_param env st purpose k auth_set operation_params op_handle b ix) ps v
           = Continue v' \<Longrightarrow>
         authentication_required v'
           = (authentication_required v \<or> KM_TAG_USER_SECURE_ID \<in> tag ` set ps)
         \<and> auth_token_matched v'
           = (auth_token_matched v
              \<or> (\<exists>p\<in>set ps. tag p = KM_TAG_USER_SECURE_ID
                    \<and> AuthTokenMatches env auth_set operation_params (long_integer p)
                         (auth_type_index ix) (auth_timeout_index ix) op_handle b
                       = Some True))"
proof (induction ps arbitrary: v)
  case Nil
  then show ?case by simp
next
  case (Cons p ps)
  from Cons.prems obtain v1 where
    step: "check_param env st purpose k auth_set operation_params op_handle b ix p v
             = Continue v1"
    and rest: "for_each (check_param env st purpose k auth_set operation_params op_handle b ix)
                 ps v1 = Continue v'"
    by (auto split: flow.splits)
  have "authentication_required v1
          = (authentication_required v \<or> tag p = KM_TAG_USER_SECURE_ID)
        \<and> auth_token_matched v1
          = (auth_token_matched v
             \<or> (tag p = KM_TAG_USER_SECURE_ID
                 \<and> AuthTokenMatches env auth_set operation_params (long_integer p)
                      (auth_type_index ix) (auth_timeout_index ix) op_handle b
                    = Some True))"
  proof (cases "tag p = KM_TAG_USER_SECURE_ID")
    case True
    with step assms show ?thesis
      by (auto simp: check_param_USER_SECURE_ID can_skip_authentication_def
               split: if_splits option.splits bool.splits)
  next
    case False
    from check_param_other [OF False step] False show ?thesis by simp
  qed
  with Cons.IH [OF rest] show ?case by auto
qed

lemma for_each_returns:
  "for_each (check_param env st purpose k auth_set operation_params op_handle b
               (find_key_entries auth_set)) ps v \<noteq> Abort"
proof (induction ps arbitrary: v)
  case Nil
  then show ?case by simp
next
  case (Cons p ps)
  have "check_param env st purpose k auth_set operation_params op_handle b
          (find_key_entries auth_set) p v \<noteq> Abort"
  proof (cases "tag p = KM_TAG_USER_SECURE_ID")
    case True
    with AuthTokenMatches_returns [of env auth_set operation_params "long_integer p" op_handle b]
    show ?thesis
      by (auto simp: check_param_USER_SECURE_ID split: option.splits bool.splits)
  next
    case False
    then show ?thesis by (rule check_param_other_returns)
  qed
  with Cons.IH show ?case by (auto split: flow.splits)
qed

subsection \<open>Deferred and required authentication\<close>

lemma authorized_purpose_error:
  "authorized_purpose purpose auth_set \<noteq> KM_ERROR_KEY_USER_NOT_AUTHENTICATED"
  by (cases purpose) auto

lemma check_params_deferred:
  assumes "b" and "KM_TAG_AUTH_TIMEOUT \<notin> tag ` set auth_set"
    and "KM_TAG_AUTH_TOKEN \<notin> tag ` set operation_params"
    and "check_params env st purpose k auth_set operation_params op_handle b
           (find_key_entries auth_set) = Continue v"
  shows "\<not> authentication_required v"
proof -
  have "auth_timeout_index (find_key_entries auth_set) = - 1"
    using assms(2) by (simp add: timeout_index_absent)
  moreover have "find_tag operation_params KM_TAG_AUTH_TOKEN = - 1"
    using assms(3) by (simp add: find_tag_absent)
  ultimately show ?thesis
    using for_each_deferred [OF assms(1)] assms(4)
    unfolding check_params_def by fastforce
qed

lemma check_params_required:
  assumes "\<not> (b \<and> KM_TAG_AUTH_TIMEOUT \<notin> tag ` set auth_set
               \<and> KM_TAG_AUTH_TOKEN \<notin> tag ` set operation_params)"
    and "check_params env st purpose k auth_set operation_params op_handle b
           (find_key_entries auth_set) = Continue v"
  shows "authentication_required v = (KM_TAG_USER_SECURE_ID \<in> tag ` set auth_set)
         \<and> auth_token_matched v
           = (\<exists>p\<in>set auth_set. tag p = KM_TAG_USER_SECURE_ID
                \<and> AuthTokenMatches env auth_set operation_params (long_integer p)
                     (auth_type_index (find_key_entries auth_set))
                     (auth_timeout_index (find_key_entries auth_set)) op_handle b
                   = Some True)"
proof -
  have "\<not> (b \<and> auth_timeout_index (find_key_entries auth_set) = - 1)
        \<or> find_tag operation_params KM_TAG_AUTH_TOKEN \<noteq> - 1"
    using assms(1) by (auto simp: timeout_index_absent find_tag_absent)
  from for_each_required [OF this] assms(2) show ?thesis
    unfolding check_params_def by fastforce
qed

lemma AuthorizeOperation_not_auth_error:
  assumes "\<And>v. check_params env st purpose k auth_set operation_params op_handle b
                   (find_key_entries auth_set) = Continue v
                 \<Longrightarrow> \<not> authentication_required v"
  shows "AuthorizeOperation env st purpose k auth_set operation_params op_handle b
           \<noteq> Some (KM_ERROR_KEY_USER_NOT_AUTHENTICATED, st')"
proof (cases "check_params env st purpose k auth_set operation_params op_handle b
                (find_key_entries auth_set)")
  case Abort
  then show ?thesis
    by (simp add: AuthorizeOperation_def Let_def authorized_purpose_error)
next
  case (Return e)
  with for_each_error [of env st purpose k auth_set operation_params op_handle b
                          "find_key_entries auth_set" auth_set]
  have "e \<noteq> KM_ERROR_KEY_USER_NOT_AUTHENTICATED"
    unfolding check_params_def by auto
  with Return show ?thesis
    by (simp add: AuthorizeOperation_def Let_def authorized_purpose_error)
next
  case (Continue v)
  with assms have "\<not> authentication_required v" by blast
  with Continue show ?thesis
    by (simp add: AuthorizeOperation_def Let_def authorized_purpose_error
          split: option.splits prod.splits)
qed

lemma AuthorizeOperation_unauthenticated:
  assumes "\<And>v. check_params env st purpose k auth_set operation_params op_handle b
                   (find_key_entries auth_set) = Continue v
                 \<Longrightarrow> authentication_required v \<and> \<not> auth_token_matched v"
  shows "(\<forall>st'. AuthorizeOperation env st purpose k auth_set operation_params op_handle b
                  \<noteq> Some (KM_ERROR_OK, st'))
         \<and> (authorized_purpose purpose auth_set = KM_ERROR_OK
             \<and> (\<exists>v. check_params env st purpose k auth_set operation_params op_handle b
                       (find_key_entries auth_set) = Continue v)
            \<longrightarrow> AuthorizeOperation env st purpose k auth_set operation_params op_handle b
                  = Some (KM_ERROR_KEY_USER_NOT_AUTHENTICATED, st))"
proof (cases "check_params env st purpose k auth_set operation_params op_handle b
                (find_key_entries auth_set)")
  case Abort
  then show ?thesis by (simp add: AuthorizeOperation_def Let_def)
next
  case (Return e)
  with for_each_failure [of env st purpose k auth_set operation_params op_handle b
                            "find_key_entries auth_set" auth_set]
  have "e \<noteq> KM_ERROR_OK"
    unfolding check_params_def by auto
  with Return show ?thesis by (simp add: AuthorizeOperation_def Let_def)
next
  case (Continue v)
  with assms have "authentication_required v \<and> \<not> auth_token_matched v" by blast
  with Continue show ?thesis by (simp add: AuthorizeOperation_def Let_def)
qed

subsection \<open>Calls on the example keys\<close>

lemmas example_defs =
  AuthorizeOperation_def find_key_entries_def check_params_def check_param_def
  param_enum_def param_int_def param_long_def param_date_def param_blob_def
  test_platform_def fresh_state_def
  MinTimeBetweenOpsPassed_def MaxUsesPerBootNotExceeded_def LastKeyAccessTime_def
  KeyAccessCount_def UpdateKeyAccessTime_def IncrementKeyAccessCount_def
  find_tag_def UINT32_MAX_def max_value_def can_skip_authentication_def
  is_origination_purpose_def
  is_usage_purpose_def AuthTokenMatches_def length_token_bytes memcpy_token_bytes
  ntoh_example

lemma per_op_key_begin:
  "AuthorizeOperation test_platform fresh_state KM_PURPOSE_SIGN 1 per_op_key [] 0 True
     = Some (KM_ERROR_OK, fresh_state)"
  by (simp add: example_defs per_op_key_def)

lemma per_op_key_update:
  "AuthorizeOperation test_platform fresh_state KM_PURPOSE_SIGN 1 per_op_key [] 5 False
     = Some (KM_ERROR_KEY_USER_NOT_AUTHENTICATED, fresh_state)"
  by (simp add: example_defs per_op_key_def)

lemma per_op_key_update_token:
  "AuthorizeOperation test_platform fresh_state KM_PURPOSE_SIGN 1 per_op_key
     [param_blob KM_TAG_AUTH_TOKEN (token_bytes 1)] 5 False
     = Some (KM_ERROR_OK, fresh_state)"
  by (simp add: example_defs per_op_key_def)

lemma expired_timed_key_begin:
  "AuthorizeOperation test_platform fresh_state KM_PURPOSE_SIGN 1 expired_timed_key [] 0 True
     = Some (KM_ERROR_KEY_EXPIRED, fresh_state)"
  by (simp add: example_defs expired_timed_key_def)

lemma untyped_key_update:
  "AuthorizeOperation test_platform fresh_state KM_PURPOSE_SIGN 1 untyped_key
     [param_blob KM_TAG_AUTH_TOKEN (token_bytes 1)] 5 False
     = Some (KM_ERROR_KEY_USER_NOT_AUTHENTICATED, fresh_state)"
  by (simp add: example_defs untyped_key_def)

lemma inactive_untyped_key_update:
  "AuthorizeOperation test_platform fresh_state KM_PURPOSE_SIGN 1 inactive_untyped_key
     [param_blob KM_TAG_AUTH_TOKEN (token_bytes 1)] 5 False
     = Some (KM_ERROR_KEY_NOT_YET_VALID, fresh_state)"
  by (simp add: example_defs inactive_untyped_key_def)

lemma example_key_tags:
  "tag ` set per_op_key = {KM_TAG_PURPOSE, KM_TAG_USER_SECURE_ID, KM_TAG_USER_AUTH_TYPE}"
  "tag ` set expired_timed_key =
     {KM_TAG_PURPOSE, KM_TAG_USER_SECURE_ID, KM_TAG_USER_AUTH_TYPE, KM_TAG_AUTH_TIMEOUT,
      KM_TAG_ORIGINATION_EXPIRE_DATETIME}"
  "tag ` set untyped_key = {KM_TAG_PURPOSE, KM_TAG_USER_SECURE_ID}"
  "tag ` set inactive_untyped_key =
     {KM_TAG_PURPOSE, KM_TAG_USER_SECURE_ID, KM_TAG_ACTIVE_DATETIME}"
  by (auto simp: per_op_key_def expired_timed_key_def untyped_key_def
        inactive_untyped_key_def param_enum_def param_int_def param_long_def param_date_def)

subsection \<open>Claims on authentication\<close>

text \<open>
  Claim C4, as the code has it. For a policy with a \<open>KM_TAG_USER_SECURE_ID\<close> entry and no
  \<open>KM_TAG_NO_AUTH_REQUIRED\<close> entry, token validation is skipped exactly when the call is
  the begin step, the policy has no \<open>KM_TAG_AUTH_TIMEOUT\<close> entry and the operation
  parameters have no \<open>KM_TAG_AUTH_TOKEN\<close> entry: then the second loop ends with
  authentication not required and the call never returns
  \<open>KM_ERROR_KEY_USER_NOT_AUTHENTICATED\<close>. In every other case the loop, when it runs to
  its end, has marked authentication as required and the token as matched exactly when
  \<open>AuthTokenMatches\<close> accepted it for some secure id of the policy; with a missing or
  non-matching token the call never returns \<open>KM_ERROR_OK\<close>, and it returns
  \<open>KM_ERROR_KEY_USER_NOT_AUTHENTICATED\<close>, with the state unchanged, when the purpose is
  authorized and no entry of the policy makes the loop return an error of its own.
\<close>

theorem AuthorizeOperation_authentication_deferral:
  assumes "KM_TAG_USER_SECURE_ID \<in> tag ` set auth_set"
    and "KM_TAG_NO_AUTH_REQUIRED \<notin> tag ` set auth_set"
  shows
    "if is_begin_operation \<and> KM_TAG_AUTH_TIMEOUT \<notin> tag ` set auth_set
        \<and> KM_TAG_AUTH_TOKEN \<notin> tag ` set operation_params
     then (\<forall>v. check_params env st purpose k auth_set operation_params op_handle
                 is_begin_operation (find_key_entries auth_set) = Continue v
               \<longrightarrow> \<not> authentication_required v)
          \<and> (\<forall>st'. AuthorizeOperation env st purpose k auth_set operation_params op_handle
                      is_begin_operation
                    \<noteq> Some (KM_ERROR_KEY_USER_NOT_AUTHENTICATED, st'))
     else (\<forall>v. check_params env st purpose k auth_set operation_params op_handle
                 is_begin_operation (find_key_entries auth_set) = Continue v
               \<longrightarrow> authentication_required v
                   \<and> auth_token_matched v
                     = (\<exists>p\<in>set auth_set. tag p = KM_TAG_USER_SECURE_ID
                          \<and> AuthTokenMatches env auth_set operation_params (long_integer p)
                               (auth_type_index (find_key_entries auth_set))
                               (auth_timeout_index (find_key_entries auth_set)) op_handle
                               is_begin_operation
                             = Some True))
          \<and> (KM_TAG_AUTH_TOKEN \<notin> tag ` set operation_params
              \<or> (\<forall>p\<in>set auth_set. tag p = KM_TAG_USER_SECURE_ID
                     \<longrightarrow> AuthTokenMatches env auth_set operation_params (long_integer p)
                           (auth_type_index (find_key_entries auth_set))
                           (auth_timeout_index (find_key_entries auth_set)) op_handle
                           is_begin_operation
                         \<noteq> Some True)
              \<longrightarrow> (\<forall>st'. AuthorizeOperation env st purpose k auth_set operation_params
                            op_handle is_begin_operation
                          \<noteq> Some (KM_ERROR_OK, st'))
                  \<and> (authorized_purpose purpose auth_set = KM_ERROR_OK
                      \<and> (\<exists>v. check_params env st purpose k auth_set operation_params
                                op_handle is_begin_operation (find_key_entries auth_set)
                              = Continue v)
                     \<longrightarrow> AuthorizeOperation env st purpose k auth_set operation_params
                           op_handle is_begin_operation
                         = Some (KM_ERROR_KEY_USER_NOT_AUTHENTICATED, st)))"
proof (cases "is_begin_operation \<and> KM_TAG_AUTH_TIMEOUT \<notin> tag ` set auth_set
                \<and> KM_TAG_AUTH_TOKEN \<notin> tag ` set operation_params")
  case True
  then have skip: "\<And>v. check_params env st purpose k auth_set operation_params op_handle
                 is_begin_operation (find_key_entries auth_set) = Continue v
               \<Longrightarrow> \<not> authentication_required v"
    using check_params_deferred by blast
  have "AuthorizeOperation env st purpose k auth_set operation_params op_handle
          is_begin_operation
        \<noteq> Some (KM_ERROR_KEY_USER_NOT_AUTHENTICATED, st')" for st'
    by (rule AuthorizeOperation_not_auth_error) (rule skip)
  with skip True show ?thesis
    by simp
next
  case False
  note req = check_params_required [OF False]
  have flags: "\<forall>v. check_params env st purpose k auth_set operation_params op_handle
                 is_begin_operation (find_key_entries auth_set) = Continue v
               \<longrightarrow> authentication_required v
                   \<and> auth_token_matched v
                     = (\<exists>p\<in>set auth_set. tag p = KM_TAG_USER_SECURE_ID
                          \<and> AuthTokenMatches env auth_set operation_params (long_integer p)
                               (auth_type_index (find_key_entries auth_set))
                               (auth_timeout_index (find_key_entries auth_set)) op_handle
                               is_begin_operation
                             = Some True)"
    using req assms(1) by blast
  have fail: "(\<forall>st'. AuthorizeOperation env st purpose k auth_set operation_params
                            op_handle is_begin_operation
                          \<noteq> Some (KM_ERROR_OK, st'))
                  \<and> (authorized_purpose purpose auth_set = KM_ERROR_OK
                      \<and> (\<exists>v. check_params env st purpose k auth_set operation_params
                                op_handle is_begin_operation (find_key_entries auth_set)
                              = Continue v)
                     \<longrightarrow> AuthorizeOperation env st purpose k auth_set operation_params
                           op_handle is_begin_operation
                         = Some (KM_ERROR_KEY_USER_NOT_AUTHENTICATED, st))"
    if nomatch: "\<forall>p\<in>set auth_set. tag p = KM_TAG_USER_SECURE_ID
                     \<longrightarrow> AuthTokenMatches env auth_set operation_params (long_integer p)
                           (auth_type_index (find_key_entries auth_set))
                           (auth_timeout_index (find_key_entries auth_set)) op_handle
                           is_begin_operation
                         \<noteq> Some True"
  proof (rule AuthorizeOperation_unauthenticated)
    fix v
    assume "check_params env st purpose k auth_set operation_params op_handle
              is_begin_operation (find_key_entries auth_set) = Continue v"
    with flags nomatch show "authentication_required v \<and> \<not> auth_token_matched v"
      by blast
  qed
  have "\<forall>p\<in>set auth_set. tag p = KM_TAG_USER_SECURE_ID
                     \<longrightarrow> AuthTokenMatches env auth_set operation_params (long_integer p)
                           (auth_type_index (find_key_entries auth_set))
                           (auth_timeout_index (find_key_entries auth_set)) op_handle
                           is_begin_operation
                         \<noteq> Some True"
    if "KM_TAG_AUTH_TOKEN \<notin> tag ` set operation_params"
    using AuthTokenMatches_no_token [OF that] by blast
  with fail flags False show ?thesis
    by (simp only: if_False) blast
qed

theorem AuthorizeOperation_authentication_deferral_witness:
  "KM_TAG_USER_SECURE_ID \<in> tag ` set per_op_key
   \<and> KM_TAG_NO_AUTH_REQUIRED \<notin> tag ` set per_op_key
   \<and> AuthorizeOperation test_platform fresh_state KM_PURPOSE_SIGN 1 per_op_key [] 0 True
       \<noteq> Some (KM_ERROR_KEY_USER_NOT_AUTHENTICATED, fresh_state)
   \<and> AuthorizeOperation test_platform fresh_state KM_PURPOSE_SIGN 1 per_op_key [] 0 True
       = Some (KM_ERROR_OK, fresh_state)
   \<and> AuthorizeOperation test_platform fresh_state KM_PURPOSE_SIGN 1 per_op_key [] 5 False
       \<noteq> Some (KM_ERROR_OK, fresh_state)
   \<and> AuthorizeOperation test_platform fresh_state KM_PURPOSE_SIGN 1 per_op_key [] 5 False
       = Some (KM_ERROR_KEY_USER_NOT_AUTHENTICATED, fresh_state)
   \<and> AuthorizeOperation test_platform fresh_state KM_PURPOSE_SIGN 1 per_op_key
        [param_blob KM_TAG_AUTH_TOKEN (token_bytes 1)] 5 False
       = Some (KM_ERROR_OK, fresh_state)"
proof -
  have h1: "KM_TAG_USER_SECURE_ID \<in> tag ` set per_op_key"
    and h2: "KM_TAG_NO_AUTH_REQUIRED \<notin> tag ` set per_op_key"
    and h3: "KM_TAG_AUTH_TIMEOUT \<notin> tag ` set per_op_key"
    by (simp_all add: example_key_tags)
  from AuthorizeOperation_authentication_deferral
         [OF h1 h2, of True "[]" test_platform fresh_state KM_PURPOSE_SIGN 1 0] h3
  have a: "AuthorizeOperation test_platform fresh_state KM_PURPOSE_SIGN 1 per_op_key [] 0 True
             \<noteq> Some (KM_ERROR_KEY_USER_NOT_AUTHENTICATED, fresh_state)"
    by simp
  from AuthorizeOperation_authentication_deferral
         [OF h1 h2, of False "[]" test_platform fresh_state KM_PURPOSE_SIGN 1 5]
  have b: "AuthorizeOperation test_platform fresh_state KM_PURPOSE_SIGN 1 per_op_key [] 5 False
             \<noteq> Some (KM_ERROR_OK, fresh_state)"
    by simp
  from h1 h2 a b per_op_key_begin per_op_key_update per_op_key_update_token
  show ?thesis by simp
qed

text \<open>
  Claim C4 as stated fails where another rule of the policy fails after the token
  check: the key below has an authentication timeout and is begun with no token, and the
  call returns \<open>KM_ERROR_KEY_EXPIRED\<close>.
\<close>

theorem AuthorizeOperation_expired_unauthenticated:
  "KM_TAG_USER_SECURE_ID \<in> tag ` set expired_timed_key
   \<and> KM_TAG_NO_AUTH_REQUIRED \<notin> tag ` set expired_timed_key
   \<and> KM_TAG_AUTH_TIMEOUT \<in> tag ` set expired_timed_key
   \<and> AuthorizeOperation test_platform fresh_state KM_PURPOSE_SIGN 1 expired_timed_key [] 0
         True
       = Some (KM_ERROR_KEY_EXPIRED, fresh_state)"
  using expired_timed_key_begin by (simp add: example_key_tags)

text \<open>
  Claim C10, as the code has it. For a policy with a \<open>KM_TAG_USER_SECURE_ID\<close> entry, no
  \<open>KM_TAG_NO_AUTH_REQUIRED\<close> entry and no \<open>KM_TAG_USER_AUTH_TYPE\<close> entry,
  \<open>AuthTokenMatches\<close> never returns true, whatever the token and the indices, and with
  the indices that \<open>AuthorizeOperation\<close> passes it returns false. A call of
  \<open>AuthorizeOperation\<close> in which authentication is not deferred therefore never returns
  \<open>KM_ERROR_OK\<close>; it returns \<open>KM_ERROR_KEY_USER_NOT_AUTHENTICATED\<close>, with the state
  unchanged, when the purpose is authorized and no entry of the policy makes the second
  loop return an error of its own.
\<close>

theorem AuthorizeOperation_without_auth_type:
  assumes "KM_TAG_USER_SECURE_ID \<in> tag ` set auth_set"
    and "KM_TAG_NO_AUTH_REQUIRED \<notin> tag ` set auth_set"
    and "KM_TAG_USER_AUTH_TYPE \<notin> tag ` set auth_set"
  shows
    "(\<forall>params sid ti tmi handle b.
        AuthTokenMatches env auth_set params sid ti tmi handle b \<noteq> Some True)
     \<and> (\<forall>params sid handle b.
          AuthTokenMatches env auth_set params sid
            (auth_type_index (find_key_entries auth_set))
            (auth_timeout_index (find_key_entries auth_set)) handle b = Some False)
     \<and> (\<not> (is_begin_operation \<and> KM_TAG_AUTH_TIMEOUT \<notin> tag ` set auth_set
              \<and> KM_TAG_AUTH_TOKEN \<notin> tag ` set operation_params)
        \<longrightarrow> (\<forall>st'. AuthorizeOperation env st purpose k auth_set operation_params op_handle
                       is_begin_operation
                     \<noteq> Some (KM_ERROR_OK, st'))
            \<and> (authorized_purpose purpose auth_set = KM_ERROR_OK
                \<and> (\<exists>v. check_params env st purpose k auth_set operation_params op_handle
                          is_begin_operation (find_key_entries auth_set) = Continue v)
               \<longrightarrow> AuthorizeOperation env st purpose k auth_set operation_params op_handle
                     is_begin_operation
                   = Some (KM_ERROR_KEY_USER_NOT_AUTHENTICATED, st)))"
proof -
  have never: "AuthTokenMatches env auth_set params sid ti tmi handle b \<noteq> Some True"
    for params sid ti tmi handle b
    by (rule AuthTokenMatches_no_auth_type [OF assms(3)])
  have false: "AuthTokenMatches env auth_set params sid
          (auth_type_index (find_key_entries auth_set))
          (auth_timeout_index (find_key_entries auth_set)) handle b = Some False"
    for params sid handle b
    using AuthTokenMatches_returns [of env auth_set params sid handle b]
      never [of params sid "auth_type_index (find_key_entries auth_set)"
               "auth_timeout_index (find_key_entries auth_set)" handle b]
    by (cases "AuthTokenMatches env auth_set params sid
                 (auth_type_index (find_key_entries auth_set))
                 (auth_timeout_index (find_key_entries auth_set)) handle b") auto
  have call: "(\<forall>st'. AuthorizeOperation env st purpose k auth_set operation_params op_handle
                       is_begin_operation
                     \<noteq> Some (KM_ERROR_OK, st'))
            \<and> (authorized_purpose purpose auth_set = KM_ERROR_OK
                \<and> (\<exists>v. check_params env st purpose k auth_set operation_params op_handle
                          is_begin_operation (find_key_entries auth_set) = Continue v)
               \<longrightarrow> AuthorizeOperation env st purpose k auth_set operation_params op_handle
                     is_begin_operation
                   = Some (KM_ERROR_KEY_USER_NOT_AUTHENTICATED, st))"
    if nd: "\<not> (is_begin_operation \<and> KM_TAG_AUTH_TIMEOUT \<notin> tag ` set auth_set
              \<and> KM_TAG_AUTH_TOKEN \<notin> tag ` set operation_params)"
  proof (rule AuthorizeOperation_unauthenticated)
    fix v
    assume "check_params env st purpose k auth_set operation_params op_handle
              is_begin_operation (find_key_entries auth_set) = Continue v"
    from check_params_required [OF nd this] assms(1) never
    show "authentication_required v \<and> \<not> auth_token_matched v"
      by blast
  qed
  from never false call show ?thesis by blast
qed

lemma untyped_key_token_fine:
  "AuthTokenMatches test_platform
     (untyped_key @ [param_int KM_TAG_USER_AUTH_TYPE 1])
     [param_blob KM_TAG_AUTH_TOKEN (token_bytes 1)] 42 2 (- 1) 5 False = Some True"
  by (simp add: example_defs untyped_key_def)

theorem AuthorizeOperation_without_auth_type_witness:
  "KM_TAG_USER_SECURE_ID \<in> tag ` set untyped_key
   \<and> KM_TAG_NO_AUTH_REQUIRED \<notin> tag ` set untyped_key
   \<and> KM_TAG_USER_AUTH_TYPE \<notin> tag ` set untyped_key
   \<and> AuthTokenMatches test_platform
        (untyped_key @ [param_int KM_TAG_USER_AUTH_TYPE 1])
        [param_blob KM_TAG_AUTH_TOKEN (token_bytes 1)] 42 2 (- 1) 5 False = Some True
   \<and> AuthTokenMatches test_platform untyped_key
        [param_blob KM_TAG_AUTH_TOKEN (token_bytes 1)] 42
        (auth_type_index (find_key_entries untyped_key))
        (auth_timeout_index (find_key_entries untyped_key)) 5 False = Some False
   \<and> AuthorizeOperation test_platform fresh_state KM_PURPOSE_SIGN 1 untyped_key
        [param_blob KM_TAG_AUTH_TOKEN (token_bytes 1)] 5 False
       = Some (KM_ERROR_KEY_USER_NOT_AUTHENTICATED, fresh_state)"
proof -
  have h1: "KM_TAG_USER_SECURE_ID \<in> tag ` set untyped_key"
    and h2: "KM_TAG_NO_AUTH_REQUIRED \<notin> tag ` set untyped_key"
    and h3: "KM_TAG_USER_AUTH_TYPE \<notin> tag ` set untyped_key"
    by (simp_all add: example_key_tags)
  from AuthorizeOperation_without_auth_type [OF h1 h2 h3, of test_platform]
  have "AuthTokenMatches test_platform untyped_key
        [param_blob KM_TAG_AUTH_TOKEN (token_bytes 1)] 42
        (auth_type_index (find_key_entries untyped_key))
        (auth_timeout_index (find_key_entries untyped_key)) 5 False = Some False"
    by blast
  with h1 h2 h3 untyped_key_token_fine untyped_key_update show ?thesis by simp
qed

text \<open>
  Claim C10 as stated fails where another rule of the policy fails after the token
  check: the key below has no authenticator type and is not yet active; an update step
  with a token, in which authentication is not deferred, returns
  \<open>KM_ERROR_KEY_NOT_YET_VALID\<close>.
\<close>

theorem AuthorizeOperation_inactive_without_auth_type:
  "KM_TAG_USER_SECURE_ID \<in> tag ` set inactive_untyped_key
   \<and> KM_TAG_NO_AUTH_REQUIRED \<notin> tag ` set inactive_untyped_key
   \<and> KM_TAG_USER_AUTH_TYPE \<notin> tag ` set inactive_untyped_key
   \<and> AuthorizeOperation test_platform fresh_state KM_PURPOSE_SIGN 1 inactive_untyped_key
        [param_blob KM_TAG_AUTH_TOKEN (token_bytes 1)] 5 False
       = Some (KM_ERROR_KEY_NOT_YET_VALID, fresh_state)"
  using inactive_untyped_key_update by (simp add: example_key_tags)

subsection \<open>The limits at their extreme values\<close>

text \<open>
  Claim C5 at \<open>N = 0\<close>. The first call on a key with \<open>KM_TAG_MAX_USES_PER_BOOT\<close> of 0,
  in a fresh boot session, returns \<open>KM_ERROR_OK\<close> and counts one use: with no entry for
  the key, \<open>MaxUsesPerBootNotExceeded\<close> returns true without comparing with the
  limit. The second call returns \<open>KM_ERROR_KEY_MAX_OPS_EXCEEDED\<close>.
\<close>

theorem AuthorizeOperation_no_use_key:
  "AuthorizeOperation test_platform fresh_state KM_PURPOSE_SIGN 1 no_use_key [] 0 True
     = Some (KM_ERROR_OK, counted_once)
   \<and> AuthorizeOperation test_platform counted_once KM_PURPOSE_SIGN 1 no_use_key [] 0 True
     = Some (KM_ERROR_KEY_MAX_OPS_EXCEEDED, counted_once)"
  by (simp add: example_defs no_use_key_def counted_once_def)

text \<open>
  Claim C6 at \<open>T = UINT32_MAX\<close>. A key whose minimum interval is the largest 32-bit
  value is never recorded in the time table, since that value is what
  \<open>min_ops_timeout\<close> holds when the policy has no such entry: a call at time 100 and a
  second one at time 101 both return \<open>KM_ERROR_OK\<close>. With an interval of 10 seconds the
  first call records the time, the second call at time 101 returns
  \<open>KM_ERROR_KEY_RATE_LIMIT_EXCEEDED\<close>, and a call at time 110 returns \<open>KM_ERROR_OK\<close>.
\<close>

theorem AuthorizeOperation_longest_interval_key:
  "AuthorizeOperation test_platform fresh_state KM_PURPOSE_SIGN 1 longest_interval_key []
       0 True
     = Some (KM_ERROR_OK, fresh_state)
   \<and> AuthorizeOperation (test_platform\<lparr>get_current_time := 101\<rparr>) fresh_state
       KM_PURPOSE_SIGN 1 longest_interval_key [] 0 True
     = Some (KM_ERROR_OK, fresh_state)
   \<and> AuthorizeOperation test_platform fresh_state KM_PURPOSE_SIGN 1 ten_seconds_key [] 0 True
     = Some (KM_ERROR_OK, timed_once)
   \<and> AuthorizeOperation (test_platform\<lparr>get_current_time := 101\<rparr>) timed_once
       KM_PURPOSE_SIGN 1 ten_seconds_key [] 0 True
     = Some (KM_ERROR_KEY_RATE_LIMIT_EXCEEDED, timed_once)
   \<and> AuthorizeOperation (test_platform\<lparr>get_current_time := 110\<rparr>) timed_once
       KM_PURPOSE_SIGN 1 ten_seconds_key [] 0 True
     = Some (KM_ERROR_OK,
             timed_once\<lparr>access_time_map :=
               \<lparr>max_size = 4,
                last_access_list = [\<lparr>keyid = 1, access_time = 110, timeout = 10\<rparr>]\<rparr>\<rparr>)"
  by (simp add: example_defs longest_interval_key_def ten_seconds_key_def timed_once_def)

subsection \<open>The limits away from the extreme values\<close>

text \<open>
  A committed update leaves the key's access time in the table, so the next check of the
  minimum interval compares the limit with the time elapsed since then: it fails when
  less than the limit has elapsed and passes from exactly the limit on. A key with no
  entry passes.
\<close>

lemma UpdateKeyAccessTime_records:
  assumes "UpdateKeyAccessTime m k now tmo = Some (True, m')"
  shows "LastKeyAccessTime m' k = Some now"
proof (cases "LastKeyAccessTime_loop (last_access_list m) k")
  case None
  from Update_loop_absent [OF None, of now] assms show ?thesis
    by (auto simp: UpdateKeyAccessTime_def LastKeyAccessTime_def split: if_splits)
next
  case (Some t)
  from assms obtain found es where
    l: "UpdateKeyAccessTime_loop k now (last_access_list m) = Some (found, es)"
    by (auto simp: UpdateKeyAccessTime_def split: option.splits)
  from Update_loop_present [OF Some l] have "found" "LastKeyAccessTime_loop es k = Some now"
    by auto
  with l assms show ?thesis
    by (auto simp: UpdateKeyAccessTime_def LastKeyAccessTime_def)
qed

lemma MinTimeBetweenOpsPassed_after_update:
  assumes "UpdateKeyAccessTime (access_time_map st) k t1 tmo = Some (True, m')"
  shows "MinTimeBetweenOpsPassed env (st\<lparr>access_time_map := m'\<rparr>) T k
           = (uint T \<le> uint (get_current_time env) - uint t1)"
  using UpdateKeyAccessTime_records [OF assms]
  by (simp add: MinTimeBetweenOpsPassed_def)

lemma MinTimeBetweenOpsPassed_no_entry:
  "LastKeyAccessTime (access_time_map st) k = None \<Longrightarrow> MinTimeBetweenOpsPassed env st T k"
  by (simp add: MinTimeBetweenOpsPassed_def)

text \<open>
  After \<open>j\<close> counted uses of a key that had no entry, in a table with room for it, the
  stored counter is \<open>j\<close>, or the largest value of its type from there on. While \<open>j\<close> is
  below \<open>2 ^ 32\<close> and within the width of the field, the check of the maximum number of
  uses therefore passes before the first use whatever the limit, and after \<open>j\<close> uses
  exactly when \<open>j\<close> is below the limit.
\<close>

lemma unat_of_nat_len: "n < 2 ^ LENGTH('w) \<Longrightarrow> unat (word_of_nat n :: 'w::len word) = n"
  by (simp add: unat_of_nat)

lemma stored_count_after_uses:
  fixes m :: "('w::len) word AccessCountMap"
  assumes "stored_count m k = None" and "length (access_count_list m) < max_size m"
  shows "stored_count (((\<lambda>m. snd (IncrementKeyAccessCount m k)) ^^ Suc j) m) k
           = Some (word_of_nat (min (Suc j) (2 ^ LENGTH('w) - 1)))"
proof (induction j)
  case 0
  have "(2::nat) ^ 1 \<le> 2 ^ LENGTH('w)"
    by (rule power_increasing) (simp_all add: Suc_leI)
  then have "min (Suc 0) (2 ^ LENGTH('w) - 1) = Suc 0" by simp
  with assms show ?case
    by (simp add: Increment_new stored_count_def)
next
  case (Suc j)
  let ?m = "((\<lambda>m. snd (IncrementKeyAccessCount m k)) ^^ Suc j) m"
  let ?c = "word_of_nat (min (Suc j) (2 ^ LENGTH('w) - 1)) :: 'w word"
  from Increment_existing [OF Suc.IH]
  have step: "stored_count (snd (IncrementKeyAccessCount ?m k)) k
                = Some (if ?c < max_value ?c then ?c + 1 else ?c)"
    by auto
  have "(if ?c < max_value ?c then ?c + 1 else ?c)
          = word_of_nat (min (Suc (Suc j)) (2 ^ LENGTH('w) - 1))"
  proof (cases "Suc j < 2 ^ LENGTH('w) - 1")
    case True
    then have c: "?c = word_of_nat (Suc j)"
      by (simp only: min_def if_True less_imp_le)
    from True have "unat (word_of_nat (Suc j) :: 'w word) = Suc j"
      by (intro unat_of_nat_len) simp
    with True have "(word_of_nat (Suc j) :: 'w word) < max_value (word_of_nat (Suc j))"
      by (simp only: word_less_nat_alt unat_max_value)
    with c True show ?thesis by (simp add: min_def)
  next
    case False
    then have "?c = word_of_nat (unat (- 1 :: 'w word))"
      by (simp add: min_def unsigned_minus_1_eq_mask mask_eq_exp_minus_1)
    then have "?c = - 1" by simp
    with False show ?thesis by (simp add: min_def max_value_def)
  qed
  with step show ?case by simp
qed

lemma MaxUsesPerBootNotExceeded_after_uses:
  fixes st :: "('w::len) word KeymasterEnforcement"
  assumes "stored_count (access_count_map st) k = None"
    and "length (access_count_list (access_count_map st)) < max_size (access_count_map st)"
    and "j < 2 ^ 32" and "j < 2 ^ LENGTH('w)"
  shows "MaxUsesPerBootNotExceeded
           (st\<lparr>access_count_map :=
                 ((\<lambda>m. snd (IncrementKeyAccessCount m k)) ^^ j) (access_count_map st)\<rparr>)
           k N
         = (j = 0 \<or> j < unat N)"
proof (cases j)
  case 0
  with assms show ?thesis
    by (simp add: MaxUsesPerBootNotExceeded_def KeyAccessCount_stored)
next
  case (Suc i)
  with assms(4) have min: "min (Suc i) (2 ^ LENGTH('w) - 1) = Suc i" by simp
  have w: "unat (word_of_nat (Suc i) :: 'w word) = Suc i"
    using assms(4) Suc by (intro unat_of_nat_len) simp
  have "unat (ucast (word_of_nat (Suc i) :: 'w word) :: 32 word) = Suc i"
    using assms(3) Suc w by (simp add: unsigned_ucast_eq take_bit_nat_eq_self)
  then have "((ucast (word_of_nat (Suc i) :: 'w word) :: 32 word) < N) = (Suc i < unat N)"
    by (simp only: word_less_nat_alt)
  with stored_count_after_uses [OF assms(1,2), of i] Suc min show ?thesis
    by (simp add: MaxUsesPerBootNotExceeded_def KeyAccessCount_stored)
qed

end
